theory Spec2Isabelle
  imports Main "HOL-Library.Monad_Syntax" "HOL-Library.AList"
begin

section \<open>Python lists and dictionaries\<close>

text \<open>
  A Python list read or written at index \<open>i\<close>: an index in \<open>[0, len)\<close> is used as it is,
  an index in \<open>[-len, 0)\<close> counts from the end, and every other index raises IndexError.
  The exception is the value \<open>None\<close> of the models below: an operation that returns
  \<open>None\<close> did not return in the source.
\<close>

definition py_index :: "'a list \<Rightarrow> int \<Rightarrow> nat option" where
  "py_index xs i =
     (if 0 \<le> i \<and> i < int (length xs) then Some (nat i)
      else if i < 0 \<and> - int (length xs) \<le> i then Some (nat (int (length xs) + i))
      else None)"

definition py_get :: "'a list \<Rightarrow> int \<Rightarrow> 'a option" where
  "py_get xs i = map_option (\<lambda>j. xs ! j) (py_index xs i)"

definition py_set :: "'a list \<Rightarrow> int \<Rightarrow> 'a \<Rightarrow> 'a list option" where
  "py_set xs i v = map_option (\<lambda>j. xs[j := v]) (py_index xs i)"

section \<open>Tic-tac-toe\<close>

text \<open>
  The state dictionary built by \<open>_new_ttt_state\<close>. The key \<open>winner\<close> holds \<open>None\<close>,
  a symbol or the string \<open>draw\<close>.
\<close>

record ttt_state =
  ttt_mode :: string
  ttt_p1_name :: string
  ttt_p2_name :: string
  ttt_board :: "string list"
  ttt_current :: string
  ttt_finished :: bool
  ttt_winner :: "string option"
  ttt_winner_name :: string
  ttt_message :: string
  ttt_score_x :: int
  ttt_score_o :: int
  ttt_score_draw :: int
  ttt_show_overlay :: bool

definition TTT_WIN_LINES :: "(int \<times> int \<times> int) list" where
  "TTT_WIN_LINES =
     [(0, 1, 2), (3, 4, 5), (6, 7, 8), (0, 3, 6), (1, 4, 7), (2, 5, 8), (0, 4, 8), (2, 4, 6)]"

definition new_ttt_state :: "string \<Rightarrow> string \<Rightarrow> string \<Rightarrow> ttt_state" where
  "new_ttt_state mode p1_name p2_name =
     \<lparr> ttt_mode = mode,
       ttt_p1_name = (if p1_name = [] then ''Jogador 1'' else p1_name),
       ttt_p2_name = (if p2_name = [] then (if mode = ''solo'' then ''Computador'' else ''Jogador 2'')
                      else p2_name),
       ttt_board = replicate 9 [],
       ttt_current = ''X'',
       ttt_finished = False,
       ttt_winner = None,
       ttt_winner_name = [],
       ttt_message = ''Vez de X'',
       ttt_score_x = 0,
       ttt_score_o = 0,
       ttt_score_draw = 0,
       ttt_show_overlay = False \<rparr>"

text \<open>
  The loop of \<open>_ttt_check_winner\<close> over the lines. The condition
  \<open>board[a] and board[a] == board[b] == board[c]\<close> reads \<open>board[b]\<close> only when
  \<open>board[a]\<close> is not empty, and \<open>board[c]\<close> only when the first two are equal.
\<close>

fun ttt_check_lines :: "string list \<Rightarrow> (int \<times> int \<times> int) list \<Rightarrow> string option option" where
  "ttt_check_lines board [] = Some None"
| "ttt_check_lines board ((a, b, c) # ls) =
     do {
       x \<leftarrow> py_get board a;
       if x = [] then ttt_check_lines board ls
       else do {
         y \<leftarrow> py_get board b;
         if x \<noteq> y then ttt_check_lines board ls
         else do {
           z \<leftarrow> py_get board c;
           if y = z then Some (Some x) else ttt_check_lines board ls
         }
       }
     }"

definition ttt_check_winner :: "string list \<Rightarrow> string option option" where
  "ttt_check_winner board = ttt_check_lines board TTT_WIN_LINES"

definition ttt_name_for_symbol :: "ttt_state \<Rightarrow> string \<Rightarrow> string" where
  "ttt_name_for_symbol state symbol = (if symbol = ''X'' then ttt_p1_name state else ttt_p2_name state)"

text \<open>
  The messages of the source are Portuguese; the letter o with an acute accent is written
  as its two UTF-8 bytes.
\<close>

definition vitoria_de :: string where
  "vitoria_de = ''Vit'' @ [char_of (0xC3 :: nat), char_of (0xB3 :: nat)] @ ''ria de ''"

definition ttt_finalize :: "ttt_state \<Rightarrow> ttt_state option" where
  "ttt_finalize state =
     do {
       winner \<leftarrow> ttt_check_winner (ttt_board state);
       (case winner of
          Some w \<Rightarrow>
            let state = state\<lparr> ttt_finished := True, ttt_winner := Some w,
                               ttt_winner_name := ttt_name_for_symbol state w,
                               ttt_show_overlay := True \<rparr>;
                state = (if w = ''X'' then state\<lparr> ttt_score_x := ttt_score_x state + 1 \<rparr>
                         else state\<lparr> ttt_score_o := ttt_score_o state + 1 \<rparr>)
            in Some (state\<lparr> ttt_message :=
                              vitoria_de @ ttt_winner_name state @ '' ('' @ w @ '')'' \<rparr>)
        | None \<Rightarrow>
            if list_all (\<lambda>cell. cell \<noteq> []) (ttt_board state) then
              Some (state\<lparr> ttt_finished := True, ttt_winner := Some ''draw'',
                            ttt_winner_name := ''Empate'',
                            ttt_score_draw := ttt_score_draw state + 1,
                            ttt_show_overlay := True, ttt_message := ''Empate!'' \<rparr>)
            else
              Some (state\<lparr> ttt_finished := False, ttt_winner := None, ttt_winner_name := [],
                            ttt_show_overlay := False,
                            ttt_message := ''Vez de '' @ ttt_name_for_symbol state (ttt_current state)
                                             @ '' ('' @ ttt_current state @ '')'' \<rparr>))
     }"

definition ttt_do_move :: "ttt_state \<Rightarrow> int \<Rightarrow> ttt_state option" where
  "ttt_do_move state pos =
     (if ttt_finished state then Some state
      else if pos < 0 \<or> pos \<ge> 9 then Some state
      else do {
        cell \<leftarrow> py_get (ttt_board state) pos;
        if cell \<noteq> [] then Some state
        else do {
          board \<leftarrow> py_set (ttt_board state) pos (ttt_current state);
          state \<leftarrow> ttt_finalize (state\<lparr> ttt_board := board \<rparr>);
          if ttt_finished state then Some state
          else ttt_finalize
                 (state\<lparr> ttt_current := (if ttt_current state = ''X'' then ''O'' else ''X'') \<rparr>)
        }
      })"


text \<open>
  A run of moves, each applied to the state the one before left; the sequence of
  \<open>_ttt_do_move\<close> calls of a game.
\<close>

fun ttt_play :: "ttt_state \<Rightarrow> int list \<Rightarrow> ttt_state option" where
  "ttt_play s [] = Some s"
| "ttt_play s (p # ps) = do { s' \<leftarrow> ttt_do_move s p; ttt_play s' ps }"

inductive ttt_reachable :: "ttt_state \<Rightarrow> bool" where
  ttt_init: "ttt_reachable (new_ttt_state mode p1_name p2_name)"
| ttt_step: "ttt_reachable s \<Longrightarrow> ttt_do_move s pos = Some s' \<Longrightarrow> ttt_reachable s'"

text \<open>
  The picture of the board that the claims speak of: a line holds three equal symbols
  that are not empty; its symbol is the one on its first cell.
\<close>

definition ttt_line_full :: "string list \<Rightarrow> int \<times> int \<times> int \<Rightarrow> bool" where
  "ttt_line_full board l =
     (case l of (a, b, c) \<Rightarrow>
        board ! nat a \<noteq> [] \<and> board ! nat a = board ! nat b \<and> board ! nat b = board ! nat c)"

definition ttt_line_symbol :: "string list \<Rightarrow> int \<times> int \<times> int \<Rightarrow> string" where
  "ttt_line_symbol board l = board ! nat (fst l)"

fun ttt_line_ok :: "nat \<Rightarrow> int \<times> int \<times> int \<Rightarrow> bool" where
  "ttt_line_ok n (a, b, c) = (0 \<le> a \<and> a < int n \<and> 0 \<le> b \<and> b < int n \<and> 0 \<le> c \<and> c < int n)"

definition ttt_flip :: "string \<Rightarrow> string" where
  "ttt_flip c = (if c = ''X'' then ''O'' else ''X'')"

definition ttt_inv :: "ttt_state \<Rightarrow> bool" where
  "ttt_inv s =
     (length (ttt_board s) = 9 \<and> (ttt_current s = ''X'' \<or> ttt_current s = ''O'') \<and>
      (\<not> ttt_finished s \<longrightarrow> find (ttt_line_full (ttt_board s)) TTT_WIN_LINES = None) \<and>
      (\<forall>w. ttt_finished s \<and> ttt_winner s = Some w \<and> w \<noteq> ''draw'' \<longrightarrow>
         (\<exists>l \<in> set TTT_WIN_LINES. ttt_line_full (ttt_board s) l) \<and>
         (\<forall>l \<in> set TTT_WIN_LINES. ttt_line_full (ttt_board s) l \<longrightarrow> ttt_line_symbol (ttt_board s) l = w)))"

text \<open>Two concrete states: a game X wins with two lines at once, and a game in progress.\<close>

definition ttt_double_win :: ttt_state where
  "ttt_double_win =
     \<lparr> ttt_mode = ''versus'', ttt_p1_name = ''Ana'', ttt_p2_name = ''Rui'',
       ttt_board = [''X'', ''X'', ''X'', ''O'', ''O'', ''X'', ''O'', ''O'', ''X''],
       ttt_current = ''X'', ttt_finished = True, ttt_winner = Some ''X'',
       ttt_winner_name = ''Ana'', ttt_message = vitoria_de @ ''Ana (X)'',
       ttt_score_x = 1, ttt_score_o = 0, ttt_score_draw = 0, ttt_show_overlay = True \<rparr>"

definition ttt_two_in_row :: ttt_state where
  "ttt_two_in_row =
     \<lparr> ttt_mode = ''versus'', ttt_p1_name = ''Ana'', ttt_p2_name = ''Rui'',
       ttt_board = [''X'', ''X'', [], ''O'', ''O'', [], [], [], []],
       ttt_current = ''X'', ttt_finished = False, ttt_winner = None,
       ttt_winner_name = [], ttt_message = ''Vez de Ana (X)'',
       ttt_score_x = 0, ttt_score_o = 0, ttt_score_draw = 0, ttt_show_overlay = False \<rparr>"

section \<open>Checkers\<close>

text \<open>
  The state dictionary built by \<open>_new_checkers_state\<close>. A cell of the board is the empty
  string, \<open>b\<close> or \<open>g\<close> (a man), \<open>B\<close> or \<open>G\<close> (a king); \<open>turn\<close> is \<open>b\<close> or \<open>g\<close>.
\<close>

record ck_state =
  ck_blue_name :: string
  ck_green_name :: string
  ck_board :: "string list"
  ck_turn :: string
  ck_selected :: "int option"
  ck_forced_from :: "int option"
  ck_finished :: bool
  ck_winner :: "string option"
  ck_winner_name :: string
  ck_message :: string
  ck_score_blue :: int
  ck_score_green :: int
  ck_show_overlay :: bool

definition CHECKERS_DARK :: "(int \<times> int) set" where
  "CHECKERS_DARK = set [(r, c). r \<leftarrow> [0..7], c \<leftarrow> [0..7], (r + c) mod 2 = 1]"

definition new_checkers_board :: "string list" where
  "new_checkers_board =
     fold (\<lambda>(r, c) board.
             if (r, c) \<notin> CHECKERS_DARK then board
             else if r \<le> 2 then board[nat (r * 8 + c) := ''g'']
             else if r \<ge> 5 then board[nat (r * 8 + c) := ''b'']
             else board)
          [(r, c). r \<leftarrow> [0..7], c \<leftarrow> [0..7]]
          (replicate 64 [])"

definition new_checkers_state :: "string \<Rightarrow> string \<Rightarrow> ck_state" where
  "new_checkers_state blue_name green_name =
     \<lparr> ck_blue_name = (if blue_name = [] then ''Time Azul'' else blue_name),
       ck_green_name = (if green_name = [] then ''Time Verde'' else green_name),
       ck_board = new_checkers_board,
       ck_turn = ''b'',
       ck_selected = None,
       ck_forced_from = None,
       ck_finished = False,
       ck_winner = None,
       ck_winner_name = [],
       ck_message = ''Vez do Time Azul'',
       ck_score_blue = 0,
       ck_score_green = 0,
       ck_show_overlay = False \<rparr>"

definition ck_piece_owner :: "string \<Rightarrow> string" where
  "ck_piece_owner piece =
     (if piece = ''b'' \<or> piece = ''B'' then ''b''
      else if piece = ''g'' \<or> piece = ''G'' then ''g''
      else [])"

definition ck_is_enemy :: "string \<Rightarrow> string \<Rightarrow> bool" where
  "ck_is_enemy piece player = (let owner = ck_piece_owner piece in owner \<noteq> [] \<and> owner \<noteq> player)"

definition ck_dirs :: "string \<Rightarrow> (int \<times> int) list" where
  "ck_dirs piece =
     (if piece = ''b'' then [(-1, -1), (-1, 1)]
      else if piece = ''g'' then [(1, -1), (1, 1)]
      else [(-1, -1), (-1, 1), (1, -1), (1, 1)])"

definition ck_in_bounds :: "int \<Rightarrow> int \<Rightarrow> bool" where
  "ck_in_bounds r c = (0 \<le> r \<and> r < 8 \<and> 0 \<le> c \<and> c < 8)"

text \<open>
  The loop of \<open>_ck_piece_moves\<close> over the directions of the piece. In one direction the
  jump is appended first, then (unless \<open>capture_only\<close>) the simple step. The cell behind
  the neighbour is read only when the neighbour holds an enemy.
\<close>

fun ck_scan_dirs ::
  "string list \<Rightarrow> int \<Rightarrow> int \<Rightarrow> string \<Rightarrow> bool \<Rightarrow> (int \<times> int) list \<Rightarrow> (int \<times> bool) list option" where
  "ck_scan_dirs board r c player capture_only [] = Some []"
| "ck_scan_dirs board r c player capture_only ((dr, dc) # ds) =
     (let r1 = r + dr; c1 = c + dc; r2 = r + 2 * dr; c2 = c + 2 * dc in
      do {
        jump \<leftarrow>
          (if ck_in_bounds r2 c2 \<and> ck_in_bounds r1 c1 then
             do {
               p1 \<leftarrow> py_get board (r1 * 8 + c1);
               if ck_is_enemy p1 player then
                 do {
                   p2 \<leftarrow> py_get board (r2 * 8 + c2);
                   Some (if p2 = [] then [(r2 * 8 + c2, True)] else [])
                 }
               else Some []
             }
           else Some []);
        step \<leftarrow>
          (if capture_only then Some []
           else if ck_in_bounds r1 c1 then
             do {
               p1 \<leftarrow> py_get board (r1 * 8 + c1);
               Some (if p1 = [] then [(r1 * 8 + c1, False)] else [])
             }
           else Some []);
        rest \<leftarrow> ck_scan_dirs board r c player capture_only ds;
        Some (jump @ step @ rest)
      })"

definition ck_piece_moves :: "string list \<Rightarrow> int \<Rightarrow> bool \<Rightarrow> (int \<times> bool) list option" where
  "ck_piece_moves board idx capture_only =
     do {
       piece \<leftarrow> py_get board idx;
       if piece = [] then Some []
       else ck_scan_dirs board (idx div 8) (idx mod 8) (ck_piece_owner piece) capture_only
              (ck_dirs piece)
     }"

text \<open>
  The captures of the piece on a cell, the expression
  \<open>[m for m in _ck_piece_moves(board, i, capture_only=True) if m[1]]\<close> of
  \<open>_ck_legal_moves\<close> and \<open>_ck_apply_move\<close>.
\<close>

definition ck_captures :: "string list \<Rightarrow> int \<Rightarrow> (int \<times> bool) list option" where
  "ck_captures board i = map_option (filter snd) (ck_piece_moves board i True)"

definition ck_steps :: "string list \<Rightarrow> int \<Rightarrow> (int \<times> bool) list option" where
  "ck_steps board i = map_option (filter (\<lambda>m. \<not> snd m)) (ck_piece_moves board i False)"

text \<open>
  The dictionary \<open>_ck_legal_moves\<close> returns is a list of entries in insertion order;
  \<open>AList.update\<close> is the assignment \<open>d[k] = v\<close> (in place for a key the dictionary has,
  at the end for a new one). The two loops over \<open>piece_indexes\<close> are one function of the
  move generator \<open>gen\<close>.
\<close>

type_synonym ck_move_map = "(int \<times> (int \<times> bool) list) list"

fun ck_collect ::
  "(int \<Rightarrow> (int \<times> bool) list option) \<Rightarrow> int list \<Rightarrow> ck_move_map \<Rightarrow> ck_move_map option" where
  "ck_collect gen [] acc = Some acc"
| "ck_collect gen (i # is) acc =
     do {
       ms \<leftarrow> gen i;
       ck_collect gen is (if ms \<noteq> [] then AList.update i ms acc else acc)
     }"

definition ck_piece_indexes :: "ck_state \<Rightarrow> int list" where
  "ck_piece_indexes state =
     (case ck_forced_from state of
        Some forced_from \<Rightarrow> [forced_from]
      | None \<Rightarrow>
          map (\<lambda>(i, p). int i)
            (filter (\<lambda>(i, p). ck_piece_owner p = ck_turn state) (enumerate 0 (ck_board state))))"

definition ck_legal_moves :: "ck_state \<Rightarrow> ck_move_map option" where
  "ck_legal_moves state =
     do {
       capture_map \<leftarrow> ck_collect (ck_captures (ck_board state)) (ck_piece_indexes state) [];
       if capture_map \<noteq> [] then Some capture_map
       else if ck_forced_from state \<noteq> None then Some []
       else ck_collect (ck_steps (ck_board state)) (ck_piece_indexes state) []
     }"

definition ck_current_name :: "ck_state \<Rightarrow> string" where
  "ck_current_name state = (if ck_turn state = ''b'' then ck_blue_name state else ck_green_name state)"

definition ck_finalize_turn_if_needed :: "ck_state \<Rightarrow> ck_state option" where
  "ck_finalize_turn_if_needed state =
     (let opp = (if ck_turn state = ''b'' then ''g'' else ''b'') in
      if filter (\<lambda>p. ck_piece_owner p = opp) (ck_board state) = [] then
        let state = state\<lparr> ck_finished := True, ck_winner := Some (ck_turn state),
                           ck_winner_name := ck_current_name state \<rparr>;
            state = (if ck_turn state = ''b'' then state\<lparr> ck_score_blue := ck_score_blue state + 1 \<rparr>
                     else state\<lparr> ck_score_green := ck_score_green state + 1 \<rparr>)
        in Some (state\<lparr> ck_show_overlay := True,
                         ck_message := vitoria_de @ ck_winner_name state \<rparr>)
      else
        let state = state\<lparr> ck_turn := opp, ck_selected := None, ck_forced_from := None \<rparr> in
        do {
          opp_moves \<leftarrow> ck_legal_moves state;
          if opp_moves = [] then
            let w = (if opp = ''b'' then ''g'' else ''b'');
                state = state\<lparr> ck_finished := True, ck_winner := Some w,
                               ck_winner_name := (if w = ''b'' then ck_blue_name state
                                                  else ck_green_name state) \<rparr>;
                state = (if w = ''b'' then state\<lparr> ck_score_blue := ck_score_blue state + 1 \<rparr>
                         else state\<lparr> ck_score_green := ck_score_green state + 1 \<rparr>)
            in Some (state\<lparr> ck_show_overlay := True,
                             ck_message := vitoria_de @ ck_winner_name state \<rparr>)
          else Some (state\<lparr> ck_message := ''Vez de '' @ ck_current_name state \<rparr>)
        })"

definition captura_obrigatoria :: string where
  "captura_obrigatoria =
     ''Captura obrigat'' @ [char_of (0xC3 :: nat), char_of (0xB3 :: nat)]
       @ ''ria: continue com a mesma pe'' @ [char_of (0xC3 :: nat), char_of (0xA7 :: nat)] @ ''a.''"

text \<open>
  \<open>_ck_apply_move\<close> writes the board cell by cell: the source cell is emptied, the piece
  put on the target (as a king when a man reaches the far row), and for a capture the cell
  midway is emptied. \<open>ck_moved_board\<close> is the board after these writes, with the flag
  \<open>promoted\<close>.
\<close>

definition ck_moved_board ::
  "string list \<Rightarrow> int \<Rightarrow> int \<Rightarrow> bool \<Rightarrow> (string list \<times> bool) option" where
  "ck_moved_board board0 from_idx to_idx is_capture =
     do {
       piece \<leftarrow> py_get board0 from_idx;
       board \<leftarrow> py_set board0 from_idx [];
       board \<leftarrow> py_set board to_idx piece;
       (board, promoted) \<leftarrow>
          (if piece = ''b'' \<and> to_idx div 8 = 0 then
             do { board \<leftarrow> py_set board to_idx ''B''; Some (board, True) }
           else if piece = ''g'' \<and> to_idx div 8 = 7 then
             do { board \<leftarrow> py_set board to_idx ''G''; Some (board, True) }
           else Some (board, False));
       if is_capture then
         do {
           let mr = (from_idx div 8 + to_idx div 8) div 2;
           let mc = (from_idx mod 8 + to_idx mod 8) div 2;
           board \<leftarrow> py_set board (mr * 8 + mc) [];
           Some (board, promoted)
         }
       else Some (board, promoted)
     }"

definition ck_apply_move :: "ck_state \<Rightarrow> int \<Rightarrow> int \<Rightarrow> bool \<Rightarrow> ck_state option" where
  "ck_apply_move state from_idx to_idx is_capture =
     do {
       (board, promoted) \<leftarrow> ck_moved_board (ck_board state) from_idx to_idx is_capture;
       let state = state\<lparr> ck_board := board \<rparr>;
       if is_capture \<and> \<not> promoted then
         do {
           next_caps \<leftarrow> ck_captures board to_idx;
           if next_caps \<noteq> [] then
             Some (state\<lparr> ck_forced_from := Some to_idx, ck_selected := Some to_idx,
                           ck_message := captura_obrigatoria \<rparr>)
           else ck_finalize_turn_if_needed state
         }
       else ck_finalize_turn_if_needed state
     }"

text \<open>
  \<open>_ck_click_cell\<close>. The dictionary \<open>targets\<close> is built from the moves of the selected
  cell; a target listed twice keeps its last flag.
\<close>

definition ck_click_cell :: "ck_state \<Rightarrow> int \<Rightarrow> ck_state option" where
  "ck_click_cell state idx =
     (if ck_finished state \<or> idx < 0 \<or> idx \<ge> 64 then Some state
      else do {
        legal \<leftarrow> ck_legal_moves state;
        (case ck_selected state of
           None \<Rightarrow>
             Some (if map_of legal idx \<noteq> None then state\<lparr> ck_selected := Some idx \<rparr> else state)
         | Some selected \<Rightarrow>
             let targets = map_of (rev (case map_of legal selected of None \<Rightarrow> [] | Some ms \<Rightarrow> ms)) in
             (case targets idx of
                Some cap \<Rightarrow> ck_apply_move state selected idx cap
              | None \<Rightarrow>
                  Some (if map_of legal idx \<noteq> None then state\<lparr> ck_selected := Some idx \<rparr>
                        else state\<lparr> ck_selected := None \<rparr>)))
      })"

text \<open>
  What one direction contributes on a 64-cell board, read off the body of the loop: the
  jump over an enemy neighbour onto an empty cell, and the step onto an empty neighbour.
\<close>

definition ck_jump_ok :: "string list \<Rightarrow> int \<Rightarrow> int \<Rightarrow> string \<Rightarrow> int \<times> int \<Rightarrow> bool" where
  "ck_jump_ok board r c player d =
     (case d of (dr, dc) \<Rightarrow>
        ck_in_bounds (r + 2 * dr) (c + 2 * dc) \<and> ck_in_bounds (r + dr) (c + dc) \<and>
        ck_is_enemy (board ! nat ((r + dr) * 8 + (c + dc))) player \<and>
        board ! nat ((r + 2 * dr) * 8 + (c + 2 * dc)) = [])"

definition ck_step_ok :: "string list \<Rightarrow> int \<Rightarrow> int \<Rightarrow> int \<times> int \<Rightarrow> bool" where
  "ck_step_ok board r c d =
     (case d of (dr, dc) \<Rightarrow>
        ck_in_bounds (r + dr) (c + dc) \<and> board ! nat ((r + dr) * 8 + (c + dc)) = [])"

definition ck_dir_moves ::
  "string list \<Rightarrow> int \<Rightarrow> int \<Rightarrow> string \<Rightarrow> bool \<Rightarrow> int \<times> int \<Rightarrow> (int \<times> bool) list" where
  "ck_dir_moves board r c player capture_only d =
     (case d of (dr, dc) \<Rightarrow>
        (if ck_jump_ok board r c player d then [((r + 2 * dr) * 8 + (c + 2 * dc), True)] else []) @
        (if \<not> capture_only \<and> ck_step_ok board r c d then [((r + dr) * 8 + (c + dc), False)] else []))"

text \<open>
  A state the handlers build has a board of 64 cells, and a forced cell, when set, is a
  cell of the board.
\<close>

definition ck_wf :: "ck_state \<Rightarrow> bool" where
  "ck_wf s =
     (length (ck_board s) = 64 \<and>
      (case ck_forced_from s of None \<Rightarrow> True | Some f \<Rightarrow> 0 \<le> f \<and> f < 64))"

text \<open>
  Names for the parts of \<open>_ck_apply_move\<close>: the cell midway between source and target,
  whether a man reaches the far row, the piece that lands, and the board after the writes.
\<close>

definition ck_mid :: "int \<Rightarrow> int \<Rightarrow> int" where
  "ck_mid from_idx to_idx =
     ((from_idx div 8 + to_idx div 8) div 2) * 8 + (from_idx mod 8 + to_idx mod 8) div 2"

definition ck_promotes :: "string \<Rightarrow> int \<Rightarrow> bool" where
  "ck_promotes piece to_idx = (piece = ''b'' \<and> to_idx div 8 = 0 \<or> piece = ''g'' \<and> to_idx div 8 = 7)"

definition ck_landed :: "string \<Rightarrow> int \<Rightarrow> string" where
  "ck_landed piece to_idx =
     (if piece = ''b'' \<and> to_idx div 8 = 0 then ''B''
      else if piece = ''g'' \<and> to_idx div 8 = 7 then ''G'' else piece)"

definition ck_after_move :: "string list \<Rightarrow> int \<Rightarrow> int \<Rightarrow> bool \<Rightarrow> string list" where
  "ck_after_move board from_idx to_idx is_capture =
     (let b = board[nat from_idx := [], nat to_idx := ck_landed (board ! nat from_idx) to_idx]
      in if is_capture then b[nat (ck_mid from_idx to_idx) := []] else b)"

text \<open>
  Names for the parts of \<open>_ck_finalize_turn_if_needed\<close>: the opponent of the side to
  move, and the state once the turn has passed to the opponent.
\<close>

definition ck_opp :: "string \<Rightarrow> string" where
  "ck_opp turn = (if turn = ''b'' then ''g'' else ''b'')"

definition ck_flipped :: "ck_state \<Rightarrow> ck_state" where
  "ck_flipped s = s\<lparr> ck_turn := ck_opp (ck_turn s), ck_selected := None, ck_forced_from := None \<rparr>"

text \<open>Concrete positions: a board is given by its occupied cells.\<close>

definition ck_place :: "(int \<times> string) list \<Rightarrow> string list" where
  "ck_place ps = fold (\<lambda>(i, p) b. b[nat i := p]) ps (replicate 64 [])"

definition ck_example :: "(int \<times> string) list \<Rightarrow> string \<Rightarrow> int option \<Rightarrow> ck_state" where
  "ck_example ps turn forced =
     (new_checkers_state ''Azul'' ''Verde'')
       \<lparr> ck_board := ck_place ps, ck_turn := turn, ck_forced_from := forced \<rparr>"

definition ck_ex_promote :: ck_state where
  "ck_ex_promote = ck_example [(17, ''b''), (40, ''b''), (10, ''g''), (12, ''g'')] ''b'' None"

definition ck_ex_chain :: ck_state where
  "ck_ex_chain = ck_example [(49, ''b''), (42, ''g''), (28, ''g''), (1, ''g'')] ''b'' None"

definition ck_ex_forced :: ck_state where
  "ck_ex_forced = ck_example [(35, ''b''), (28, ''g''), (1, ''g'')] ''b'' (Some 35)"

definition ck_ex_quiet :: ck_state where
  "ck_ex_quiet = ck_example [(21, ''b''), (1, ''g'')] ''b'' None"

definition ck_ex_blocked :: ck_state where
  "ck_ex_blocked = ck_example [(8, ''b''), (10, ''b''), (19, ''b''), (1, ''g'')] ''b'' None"

definition ck_ex_alone :: ck_state where
  "ck_ex_alone = ck_example [(17, ''b'')] ''b'' None"

definition ck_ex_last_capture :: ck_state where
  "ck_ex_last_capture = (ck_example [(17, ''b''), (10, ''g'')] ''b'' None)\<lparr> ck_selected := Some 17 \<rparr>"


section \<open>The session store\<close>

text \<open>
  \<open>GAME_STORE\<close> is a Python dictionary: a list of entries in insertion order with
  distinct keys. \<open>AList.update\<close> is the assignment \<open>GAME_STORE[k] = v\<close>: a key the
  dictionary has keeps its place, a new key goes to the end. \<open>next(iter(GAME_STORE))\<close>
  is the first key, and \<open>pop\<close> removes its entry.

  \<open>_save_state\<close>, \<open>_save_ttt_state\<close> and \<open>_save_checkers_state\<close> end with the same
  lines, the assignment and the test of the length; \<open>store_save\<close> is these lines.
\<close>

definition store_save :: "'k \<Rightarrow> 'v \<Rightarrow> ('k \<times> 'v) list \<Rightarrow> ('k \<times> 'v) list" where
  "store_save k state store0 =
     (let store = AList.update k state store0 in
      if length store > 500 then
        (case store of [] \<Rightarrow> store | (oldest, _) # _ \<Rightarrow> AList.delete oldest store)
      else store)"

text \<open>
  The keys of the Flask session the handlers of the three games read. A key that is
  absent is \<open>None\<close>.
\<close>

record session =
  game_id :: "string option"
  ttt_id :: "string option"
  checkers_id :: "string option"
  room_code :: "string option"
  room_role :: "string option"
  ttt_room_code :: "string option"
  ttt_room_role :: "string option"
  ck_room_code :: "string option"
  ck_room_role :: "string option"

text \<open>
  The test \<open>if not game_id\<close> holds for an absent key and for the empty string.
  \<open>fresh\<close> is the value of \<open>uuid.uuid4().hex\<close>.
\<close>

definition py_falsy :: "string option \<Rightarrow> bool" where
  "py_falsy v = (case v of None \<Rightarrow> True | Some s \<Rightarrow> s = [])"

definition save_state ::
  "string \<Rightarrow> 'v \<Rightarrow> session \<times> (string \<times> 'v) list \<Rightarrow> session \<times> (string \<times> 'v) list" where
  "save_state fresh state w =
     (case w of (sess, store) \<Rightarrow>
        if py_falsy (game_id sess) then
          (sess\<lparr> game_id := Some fresh \<rparr>, store_save fresh state store)
        else (sess, store_save (the (game_id sess)) state store))"

definition save_ttt_state ::
  "string \<Rightarrow> 'v \<Rightarrow> session \<times> (string \<times> 'v) list \<Rightarrow> session \<times> (string \<times> 'v) list" where
  "save_ttt_state fresh state w =
     (case w of (sess, store) \<Rightarrow>
        if py_falsy (ttt_id sess) then
          (sess\<lparr> ttt_id := Some fresh \<rparr>, store_save fresh state store)
        else (sess, store_save (the (ttt_id sess)) state store))"

definition save_checkers_state ::
  "string \<Rightarrow> 'v \<Rightarrow> session \<times> (string \<times> 'v) list \<Rightarrow> session \<times> (string \<times> 'v) list" where
  "save_checkers_state fresh state w =
     (case w of (sess, store) \<Rightarrow>
        if py_falsy (checkers_id sess) then
          (sess\<lparr> checkers_id := Some fresh \<rparr>, store_save fresh state store)
        else (sess, store_save (the (checkers_id sess)) state store))"

text \<open>\<open>_start_new_checkers_state\<close> stores under a fresh key and tests no length.\<close>

definition start_new_checkers_state ::
  "string \<Rightarrow> 'v \<Rightarrow> session \<times> (string \<times> 'v) list \<Rightarrow> session \<times> (string \<times> 'v) list" where
  "start_new_checkers_state fresh state w =
     (case w of (sess, store) \<Rightarrow> (sess\<lparr> checkers_id := Some fresh \<rparr>, AList.update fresh state store))"

text \<open>
  A store of 500 sessions numbered in the order they were created, and one of 502 (as
  502 calls of a \<open>_start_new\<close> function leave it).
\<close>

definition store_of :: "nat \<Rightarrow> (nat \<times> nat) list" where
  "store_of n = map (\<lambda>i. (i, 0)) [0..<n]"

section \<open>Room codes\<close>

text \<open>
  \<open>_new_room_code\<close> draws from the random generator and, when 200 draws are all taken,
  from \<open>uuid.uuid4()\<close>. Both are inputs of the model: \<open>rnd k\<close> is the number behind the
  \<open>k\<close>-th call of \<open>random.choice\<close> (the letter picked is the one at that index modulo the
  length of the alphabet), and \<open>uuid_hex\<close> is the value of \<open>uuid.uuid4().hex\<close>. The three
  room stores are dictionaries keyed by code.
\<close>

definition room_alphabet :: string where
  "room_alphabet = ''ABCDEFGHIJKLMNOPQRSTUVWXYZ0123456789''"

definition draw_code :: "(nat \<Rightarrow> nat) \<Rightarrow> nat \<Rightarrow> string" where
  "draw_code rnd n = map (\<lambda>j. room_alphabet ! (rnd (6 * n + j) mod length room_alphabet)) [0..<6]"

definition code_in_use ::
  "(string \<times> 'a) list \<Rightarrow> (string \<times> 'b) list \<Rightarrow> (string \<times> 'c) list \<Rightarrow> string \<Rightarrow> bool" where
  "code_in_use ROOM_STORE CHECKERS_ROOM_STORE TTT_ROOM_STORE code =
     (\<not> (map_of ROOM_STORE code = None \<and> map_of CHECKERS_ROOM_STORE code = None \<and>
         map_of TTT_ROOM_STORE code = None))"

fun room_code_loop :: "(nat \<Rightarrow> nat) \<Rightarrow> (string \<Rightarrow> bool) \<Rightarrow> nat \<Rightarrow> nat \<Rightarrow> string option" where
  "room_code_loop rnd in_use 0 n = None"
| "room_code_loop rnd in_use (Suc k) n =
     (let code = draw_code rnd n in
      if \<not> in_use code then Some code else room_code_loop rnd in_use k (Suc n))"

text \<open>\<open>str.upper\<close> on the characters a hexadecimal string has: the letters
  \<open>a\<close> to \<open>z\<close> (codes 97 to 122) move to \<open>A\<close> to \<open>Z\<close>.\<close>

definition py_upper :: "char \<Rightarrow> char" where
  "py_upper c =
     (if (97 :: nat) \<le> of_char c \<and> of_char c \<le> (122 :: nat)
      then char_of (of_char c - (32 :: nat)) else c)"

definition new_room_code ::
  "(nat \<Rightarrow> nat) \<Rightarrow> string \<Rightarrow> (string \<times> 'a) list \<Rightarrow> (string \<times> 'b) list \<Rightarrow> (string \<times> 'c) list \<Rightarrow> string" where
  "new_room_code rnd uuid_hex ROOM_STORE CHECKERS_ROOM_STORE TTT_ROOM_STORE =
     (case room_code_loop rnd (code_in_use ROOM_STORE CHECKERS_ROOM_STORE TTT_ROOM_STORE) 200 0 of
        Some code \<Rightarrow> code
      | None \<Rightarrow> map py_upper (take 6 uuid_hex))"

section \<open>The checkers handlers\<close>

text \<open>
  An entry of \<open>CHECKERS_ROOM_STORE\<close>, and the part of the server a checkers request
  reads and writes: the two stores, the session of the requester and the messages flashed
  to it. The keys of \<open>GAME_STORE\<close> are fresh identifiers, one for each game started, so
  the entry under a session's \<open>checkers_id\<close> is a checkers state; the view holds the
  checkers states. Every handler answers with the same redirect, which is left out.
\<close>

record ck_room =
  room_checkers_id :: "string option"
  green_joined :: bool

record ck_world =
  GAME_STORE :: "(string \<times> ck_state) list"
  CHECKERS_ROOM_STORE :: "(string \<times> ck_room) list"
  sess :: session
  flashes :: "string list"

definition get_checkers_state :: "session \<Rightarrow> (string \<times> ck_state) list \<Rightarrow> ck_state option" where
  "get_checkers_state s store =
     (if py_falsy (checkers_id s) then None else map_of store (the (checkers_id s)))"

definition get_checkers_room ::
  "session \<Rightarrow> (string \<times> ck_room) list \<Rightarrow> session \<times> ck_room option" where
  "get_checkers_room s rooms =
     (if py_falsy (ck_room_code s) then (s, None)
      else (case map_of rooms (the (ck_room_code s)) of
              None \<Rightarrow> (s\<lparr> ck_room_code := None, ck_room_role := None \<rparr>, None)
            | Some room \<Rightarrow> (s, Some room)))"

definition checkers_room_ready :: "ck_room \<Rightarrow> bool" where
  "checkers_room_ready room = green_joined room"

definition checkers_room_can_play :: "ck_state \<Rightarrow> ck_room option \<Rightarrow> session \<Rightarrow> bool" where
  "checkers_room_can_play state room s =
     (case room of
        None \<Rightarrow> True
      | Some r \<Rightarrow>
          if \<not> checkers_room_ready r then False
          else if ck_room_role s \<noteq> Some ''b'' \<and> ck_room_role s \<noteq> Some ''g'' then False
          else Some (ck_turn state) = ck_room_role s)"

text \<open>
  \<open>checkers_click\<close>. The state the handler changes is the object the store holds; the
  model writes it back with \<open>_save_checkers_state\<close>, as the handler does. A click that
  raises leaves no result (\<open>None\<close>).
\<close>

definition checkers_click :: "string \<Rightarrow> ck_world \<Rightarrow> int \<Rightarrow> ck_world option" where
  "checkers_click fresh w idx =
     (case get_checkers_state (sess w) (GAME_STORE w) of
        None \<Rightarrow> Some w
      | Some state \<Rightarrow>
          (case get_checkers_room (sess w) (CHECKERS_ROOM_STORE w) of (s, room) \<Rightarrow>
             if room \<noteq> None \<and> \<not> checkers_room_can_play state room s then
               Some (w\<lparr> sess := s, flashes := flashes w @ [''Aguarde seu turno.''] \<rparr>)
             else
               do {
                 state' \<leftarrow> ck_click_cell state idx;
                 (case save_checkers_state fresh state' (s, GAME_STORE w) of (s', store) \<Rightarrow>
                    Some (w\<lparr> sess := s', GAME_STORE := store \<rparr>))
               }))"

text \<open>
  What the other checkers handlers do to the state of the session: \<open>checkers_next\<close>,
  \<open>checkers_overlay_dismiss\<close> and \<open>checkers_room_join\<close> (each then stores the state).
\<close>

definition checkers_next_state :: "ck_state \<Rightarrow> ck_state" where
  "checkers_next_state state =
     state\<lparr> ck_board := new_checkers_board, ck_turn := ''b'', ck_selected := None,
            ck_forced_from := None, ck_finished := False, ck_winner := None,
            ck_winner_name := [], ck_show_overlay := False,
            ck_message := ''Vez de '' @ ck_blue_name state \<rparr>"

definition checkers_overlay_dismiss_state :: "ck_state \<Rightarrow> ck_state" where
  "checkers_overlay_dismiss_state state = state\<lparr> ck_show_overlay := False \<rparr>"

definition checkers_room_join_state :: "string \<Rightarrow> ck_state \<Rightarrow> ck_state" where
  "checkers_room_join_state green_name state =
     (let state = state\<lparr> ck_green_name := green_name \<rparr> in
      state\<lparr> ck_message := ''Partida iniciada. Vez de '' @ ck_current_name state \<rparr>)"

section \<open>The tic-tac-toe handlers\<close>

text \<open>
  \<open>_ttt_bot_turn\<close>: \<open>rnd\<close> is the number behind \<open>random.choice\<close>, which picks among the
  empty cells.
\<close>

definition ttt_bot_turn :: "nat \<Rightarrow> ttt_state \<Rightarrow> ttt_state option" where
  "ttt_bot_turn rnd state =
     (if ttt_mode state \<noteq> ''solo'' \<or> ttt_finished state \<or> ttt_current state \<noteq> ''O'' then Some state
      else
        let empty = map (\<lambda>(idx, cell). int idx)
                      (filter (\<lambda>(idx, cell). cell = []) (enumerate 0 (ttt_board state)))
        in if empty = [] then Some state
           else ttt_do_move state (empty ! (rnd mod length empty)))"

text \<open>
  What the handlers do to the state of the session: \<open>tictactoe_move\<close> (\<open>has_room\<close>
  tells whether the session is bound to a room), \<open>tictactoe_next\<close>,
  \<open>tictactoe_overlay_dismiss\<close> and \<open>tictactoe_room_join\<close>.
\<close>

definition tictactoe_move_state :: "nat \<Rightarrow> bool \<Rightarrow> ttt_state \<Rightarrow> int \<Rightarrow> ttt_state option" where
  "tictactoe_move_state rnd has_room state pos =
     do {
       state \<leftarrow> ttt_do_move state pos;
       if \<not> has_room then ttt_bot_turn rnd state else Some state
     }"

definition tictactoe_next_state :: "ttt_state \<Rightarrow> ttt_state" where
  "tictactoe_next_state state =
     state\<lparr> ttt_board := replicate 9 [], ttt_current := ''X'', ttt_finished := False,
            ttt_winner := None, ttt_winner_name := [], ttt_show_overlay := False,
            ttt_message := ''Vez de '' @ ttt_p1_name state @ '' (X)'' \<rparr>"

definition tictactoe_overlay_dismiss_state :: "ttt_state \<Rightarrow> ttt_state" where
  "tictactoe_overlay_dismiss_state state = state\<lparr> ttt_show_overlay := False \<rparr>"

definition tictactoe_room_join_state :: "string \<Rightarrow> ttt_state \<Rightarrow> ttt_state" where
  "tictactoe_room_join_state p2_name state =
     state\<lparr> ttt_mode := ''versus'', ttt_p2_name := p2_name,
            ttt_message := ''Vez de '' @ ttt_p1_name state @ '' (X)'' \<rparr>"

text \<open>The cumulative scores of one state are at most those of another.\<close>

definition ttt_scores_le :: "ttt_state \<Rightarrow> ttt_state \<Rightarrow> bool" where
  "ttt_scores_le s s' =
     (ttt_score_x s \<le> ttt_score_x s' \<and> ttt_score_o s \<le> ttt_score_o s' \<and>
      ttt_score_draw s \<le> ttt_score_draw s')"

definition ck_scores_le :: "ck_state \<Rightarrow> ck_state \<Rightarrow> bool" where
  "ck_scores_le s s' =
     (ck_score_blue s \<le> ck_score_blue s' \<and> ck_score_green s \<le> ck_score_green s')"

definition ttt_scores_eq :: "ttt_state \<Rightarrow> ttt_state \<Rightarrow> bool" where
  "ttt_scores_eq s s' =
     (ttt_score_x s' = ttt_score_x s \<and> ttt_score_o s' = ttt_score_o s \<and>
      ttt_score_draw s' = ttt_score_draw s)"

definition ck_scores_eq :: "ck_state \<Rightarrow> ck_state \<Rightarrow> bool" where
  "ck_scores_eq s s' =
     (ck_score_blue s' = ck_score_blue s \<and> ck_score_green s' = ck_score_green s)"

text \<open>Concrete inputs: a uuid in hexadecimal, and a room with both players in it.\<close>

definition uuid_example :: string where
  "uuid_example = ''abcdef0123456789abcdef0123456789''"

definition ck_room_example :: ck_world where
  "ck_room_example =
     \<lparr> GAME_STORE = [(''c0ffee'', new_checkers_state ''Azul'' ''Verde'')],
       CHECKERS_ROOM_STORE = [(''ROOM42'', \<lparr> room_checkers_id = Some ''c0ffee'', green_joined = True \<rparr>)],
       sess = \<lparr> game_id = None, ttt_id = None, checkers_id = Some ''c0ffee'', room_code = None,
                room_role = None, ttt_room_code = None, ttt_room_role = None,
                ck_room_code = Some ''ROOM42'', ck_room_role = Some ''g'' \<rparr>,
       flashes = [] \<rparr>"


section \<open>Properties of the list operations\<close>

lemma py_get_in_range: "0 \<le> i \<Longrightarrow> i < int (length xs) \<Longrightarrow> py_get xs i = Some (xs ! nat i)"
  by (simp add: py_get_def py_index_def)

lemma py_set_in_range: "0 \<le> i \<Longrightarrow> i < int (length xs) \<Longrightarrow> py_set xs i v = Some (xs[nat i := v])"
  by (simp add: py_set_def py_index_def)

section \<open>Properties of tic-tac-toe\<close>

lemma ttt_check_lines_find:
  "list_all (ttt_line_ok (length board)) ls \<Longrightarrow>
   ttt_check_lines board ls = Some (map_option (ttt_line_symbol board) (find (ttt_line_full board) ls))"
proof (induction ls)
  case Nil
  then show ?case by simp
next
  case (Cons l ls)
  obtain a b c where l: "l = (a, b, c)" by (cases l) auto
  from Cons.prems have ok: "0 \<le> a" "a < int (length board)" "0 \<le> b" "b < int (length board)"
      "0 \<le> c" "c < int (length board)" and rest: "list_all (ttt_line_ok (length board)) ls"
    by (simp_all add: l)
  show ?case
    using Cons.IH [OF rest] ok
    by (simp add: l py_get_in_range ttt_line_full_def ttt_line_symbol_def)
qed

lemma TTT_WIN_LINES_ok: "list_all (ttt_line_ok 9) TTT_WIN_LINES"
  by (simp add: TTT_WIN_LINES_def)

lemma ttt_check_winner_find:
  "length board = 9 \<Longrightarrow>
   ttt_check_winner board = Some (map_option (ttt_line_symbol board) (find (ttt_line_full board) TTT_WIN_LINES))"
  using ttt_check_lines_find [of board TTT_WIN_LINES] TTT_WIN_LINES_ok
  by (simp add: ttt_check_winner_def)

lemma ttt_finalize_eval:
  assumes "length (ttt_board state) = 9"
  shows "ttt_finalize state =
     (case find (ttt_line_full (ttt_board state)) TTT_WIN_LINES of
        Some l \<Rightarrow>
          (let w = ttt_line_symbol (ttt_board state) l in
           Some (state\<lparr> ttt_finished := True, ttt_winner := Some w,
                         ttt_winner_name := ttt_name_for_symbol state w,
                         ttt_show_overlay := True,
                         ttt_score_x := (if w = ''X'' then ttt_score_x state + 1 else ttt_score_x state),
                         ttt_score_o := (if w = ''X'' then ttt_score_o state else ttt_score_o state + 1),
                         ttt_message := vitoria_de @ ttt_name_for_symbol state w @ '' ('' @ w @ '')'' \<rparr>))
      | None \<Rightarrow>
          if list_all (\<lambda>cell. cell \<noteq> []) (ttt_board state) then
            Some (state\<lparr> ttt_finished := True, ttt_winner := Some ''draw'',
                          ttt_winner_name := ''Empate'',
                          ttt_score_draw := ttt_score_draw state + 1,
                          ttt_show_overlay := True, ttt_message := ''Empate!'' \<rparr>)
          else
            Some (state\<lparr> ttt_finished := False, ttt_winner := None, ttt_winner_name := [],
                          ttt_show_overlay := False,
                          ttt_message := ''Vez de '' @ ttt_name_for_symbol state (ttt_current state)
                                           @ '' ('' @ ttt_current state @ '')'' \<rparr>))"
  by (simp add: ttt_finalize_def ttt_check_winner_find [OF assms] Let_def split: option.splits)

lemma ttt_do_move_noop:
  assumes "length (ttt_board s) = 9"
    and "ttt_finished s \<or> pos < 0 \<or> 9 \<le> pos \<or> ttt_board s ! nat pos \<noteq> []"
  shows "ttt_do_move s pos = Some s"
  using assms by (auto simp: ttt_do_move_def py_get_in_range)

lemma ttt_do_move_placed:
  assumes len: "length (ttt_board s) = 9"
    and neg: "\<not> (ttt_finished s \<or> pos < 0 \<or> 9 \<le> pos \<or> ttt_board s ! nat pos \<noteq> [])"
  shows "\<exists>s'. ttt_do_move s pos = Some s' \<and>
              ttt_board s' = (ttt_board s)[nat pos := ttt_current s] \<and>
              (case find (ttt_line_full (ttt_board s')) TTT_WIN_LINES of
                 Some l \<Rightarrow> ttt_finished s' \<and> ttt_winner s' = Some (ttt_line_symbol (ttt_board s') l)
                            \<and> ttt_current s' = ttt_current s
               | None \<Rightarrow>
                   if list_all (\<lambda>cell. cell \<noteq> []) (ttt_board s')
                   then ttt_finished s' \<and> ttt_winner s' = Some ''draw'' \<and> ttt_current s' = ttt_current s
                   else \<not> ttt_finished s' \<and> ttt_winner s' = None \<and>
                        ttt_current s' = ttt_flip (ttt_current s))"
proof -
  define b where "b = (ttt_board s)[nat pos := ttt_current s]"
  have lb: "length b = 9" by (simp add: b_def len)
  have step: "ttt_do_move s pos =
      do { st \<leftarrow> ttt_finalize (s\<lparr>ttt_board := b\<rparr>);
           if ttt_finished st then Some st
           else ttt_finalize (st\<lparr>ttt_current := (if ttt_current st = ''X'' then ''O'' else ''X'')\<rparr>) }"
    using neg len by (simp add: ttt_do_move_def py_get_in_range py_set_in_range b_def)
  let ?P = "\<lambda>s'. ttt_board s' = b \<and>
                  (case find (ttt_line_full (ttt_board s')) TTT_WIN_LINES of
                     Some l \<Rightarrow> ttt_finished s' \<and> ttt_winner s' = Some (ttt_line_symbol (ttt_board s') l)
                                \<and> ttt_current s' = ttt_current s
                   | None \<Rightarrow>
                       if list_all (\<lambda>cell. cell \<noteq> []) (ttt_board s')
                       then ttt_finished s' \<and> ttt_winner s' = Some ''draw'' \<and> ttt_current s' = ttt_current s
                       else \<not> ttt_finished s' \<and> ttt_winner s' = None \<and>
                            ttt_current s' = ttt_flip (ttt_current s))"
  have "\<exists>s'. ttt_do_move s pos = Some s' \<and> ?P s'"
  proof (cases "find (ttt_line_full b) TTT_WIN_LINES")
    case (Some l)
    then show ?thesis
      unfolding step using lb by (simp add: ttt_finalize_eval Let_def)
  next
    case None
    show ?thesis
    proof (cases "list_all (\<lambda>cell. cell \<noteq> []) b")
      case True
      with None show ?thesis
        unfolding step using lb by (simp add: ttt_finalize_eval)
    next
      case False
      with None show ?thesis
        unfolding step using lb by (simp add: ttt_finalize_eval ttt_flip_def)
    qed
  qed
  then show ?thesis unfolding b_def .
qed

text \<open>
  Claim C5. On a nine-cell board, \<open>_ttt_do_move\<close> returns the state as it is when the game
  is finished, \<open>pos\<close> is below 0 or at least 9, or the cell is taken. Otherwise it returns,
  the current symbol is on the cell, and: when a winning line holds three equal symbols that
  are not empty (the first such line of \<open>TTT_WIN_LINES\<close> decides), the game is finished
  and the winner is the symbol of that line; else when every cell is filled the game is
  finished and the winner is \<open>draw\<close>; else the game is not finished and the current symbol
  has flipped.
\<close>

theorem ttt_do_move_spec:
  assumes len: "length (ttt_board s) = 9"
  shows "(ttt_finished s \<or> pos < 0 \<or> 9 \<le> pos \<or> ttt_board s ! nat pos \<noteq> [] \<longrightarrow>
            ttt_do_move s pos = Some s) \<and>
         (\<not> (ttt_finished s \<or> pos < 0 \<or> 9 \<le> pos \<or> ttt_board s ! nat pos \<noteq> []) \<longrightarrow>
            (\<exists>s'. ttt_do_move s pos = Some s' \<and>
                  ttt_board s' = (ttt_board s)[nat pos := ttt_current s] \<and>
                  (case find (ttt_line_full (ttt_board s')) TTT_WIN_LINES of
                     Some l \<Rightarrow> ttt_finished s' \<and> ttt_winner s' = Some (ttt_line_symbol (ttt_board s') l)
                                \<and> ttt_current s' = ttt_current s
                   | None \<Rightarrow>
                       if list_all (\<lambda>cell. cell \<noteq> []) (ttt_board s')
                       then ttt_finished s' \<and> ttt_winner s' = Some ''draw'' \<and> ttt_current s' = ttt_current s
                       else \<not> ttt_finished s' \<and> ttt_winner s' = None \<and>
                            ttt_current s' = ttt_flip (ttt_current s))))"
  using ttt_do_move_noop [OF len] ttt_do_move_placed [OF len] by blast

theorem ttt_do_move_spec_witness:
  "length (ttt_board ttt_two_in_row) = 9 \<and>
   ttt_do_move ttt_two_in_row 0 = Some ttt_two_in_row \<and>
   ttt_do_move ttt_two_in_row 9 = Some ttt_two_in_row \<and>
   (\<exists>s'. ttt_do_move ttt_two_in_row 2 = Some s' \<and> ttt_finished s' \<and> ttt_winner s' = Some ''X'') \<and>
   (\<exists>s'. ttt_do_move ttt_two_in_row 8 = Some s' \<and> \<not> ttt_finished s' \<and> ttt_current s' = ''O'')"
proof -
  have len: "length (ttt_board ttt_two_in_row) = 9" by (simp add: ttt_two_in_row_def)
  show ?thesis
    using ttt_do_move_spec [OF len, of 0] ttt_do_move_spec [OF len, of 9]
      ttt_do_move_spec [OF len, of 2] ttt_do_move_spec [OF len, of 8]
    by (auto simp: ttt_two_in_row_def TTT_WIN_LINES_def ttt_line_full_def ttt_line_symbol_def
        ttt_flip_def)
qed

lemma ttt_line_full_update:
  assumes "\<not> ttt_line_full b l" and "ttt_line_ok (length b) l" and "ttt_line_full (b[p := c]) l"
  shows "ttt_line_symbol (b[p := c]) l = c"
proof -
  obtain x y z where l: "l = (x, y, z)" by (cases l) auto
  from assms(2) have px: "nat x < length b" and py: "nat y < length b" and pz: "nat z < length b"
    by (auto simp: l)
  from assms(3) have eq: "b[p := c] ! nat x \<noteq> []" "b[p := c] ! nat x = b[p := c] ! nat y"
      "b[p := c] ! nat y = b[p := c] ! nat z"
    unfolding l ttt_line_full_def by blast+
  consider "p = nat x" | "p = nat y" | "p = nat z" | "p \<noteq> nat x" "p \<noteq> nat y" "p \<noteq> nat z"
    by blast
  then show ?thesis
  proof cases
    case 1
    then show ?thesis using px by (simp add: l ttt_line_symbol_def)
  next
    case 2
    then have "b[p := c] ! nat y = c" using py by simp
    with eq show ?thesis by (simp add: l ttt_line_symbol_def)
  next
    case 3
    then have "b[p := c] ! nat z = c" using pz by simp
    with eq show ?thesis by (simp add: l ttt_line_symbol_def)
  next
    case 4
    with eq have "ttt_line_full b l" by (simp add: l ttt_line_full_def)
    with assms(1) show ?thesis by simp
  qed
qed

lemma ttt_new_lines_current:
  assumes none: "find (ttt_line_full b) TTT_WIN_LINES = None" and len: "length b = 9"
    and l: "l \<in> set TTT_WIN_LINES" and full: "ttt_line_full (b[p := c]) l"
  shows "ttt_line_symbol (b[p := c]) l = c"
proof -
  from none l have "\<not> ttt_line_full b l" by (metis find_None_iff)
  moreover from l TTT_WIN_LINES_ok have "ttt_line_ok (length b) l"
    by (simp add: len list_all_iff)
  ultimately show ?thesis using full by (rule ttt_line_full_update)
qed

lemma ttt_inv_new: "ttt_inv (new_ttt_state mode p1 p2)"
  by (simp add: ttt_inv_def new_ttt_state_def TTT_WIN_LINES_def ttt_line_full_def
      eval_nat_numeral)

lemma ttt_inv_step:
  assumes inv: "ttt_inv s" and mv: "ttt_do_move s pos = Some s'"
  shows "ttt_inv s'"
proof (cases "ttt_finished s \<or> pos < 0 \<or> 9 \<le> pos \<or> ttt_board s ! nat pos \<noteq> []")
  case True
  from inv have "length (ttt_board s) = 9" by (simp add: ttt_inv_def)
  from ttt_do_move_noop [OF this True] mv have "s' = s" by simp
  with inv show ?thesis by simp
next
  case False
  from inv have len: "length (ttt_board s) = 9"
    and cur: "ttt_current s = ''X'' \<or> ttt_current s = ''O''"
    and none: "find (ttt_line_full (ttt_board s)) TTT_WIN_LINES = None"
    using False by (simp_all add: ttt_inv_def)
  define b where "b = (ttt_board s)[nat pos := ttt_current s]"
  from ttt_do_move_placed [OF len False] mv
  have bs: "ttt_board s' = b"
    and res: "(case find (ttt_line_full b) TTT_WIN_LINES of
                 Some l \<Rightarrow> ttt_finished s' \<and> ttt_winner s' = Some (ttt_line_symbol b l)
                            \<and> ttt_current s' = ttt_current s
               | None \<Rightarrow>
                   if list_all (\<lambda>cell. cell \<noteq> []) b
                   then ttt_finished s' \<and> ttt_winner s' = Some ''draw'' \<and> ttt_current s' = ttt_current s
                   else \<not> ttt_finished s' \<and> ttt_winner s' = None \<and>
                        ttt_current s' = ttt_flip (ttt_current s))"
    by (auto simp: b_def split: option.splits)
  have lb: "length b = 9" by (simp add: b_def len)
  have sym: "\<And>l. l \<in> set TTT_WIN_LINES \<Longrightarrow> ttt_line_full b l \<Longrightarrow> ttt_line_symbol b l = ttt_current s"
    unfolding b_def using none len by (rule ttt_new_lines_current)
  show ?thesis
  proof (cases "find (ttt_line_full b) TTT_WIN_LINES")
    case (Some l)
    then have l: "l \<in> set TTT_WIN_LINES" "ttt_line_full b l"
      by (auto simp: find_Some_iff)
    from res Some have fin: "ttt_finished s'" and w: "ttt_winner s' = Some (ttt_line_symbol b l)"
      and c: "ttt_current s' = ttt_current s" by simp_all
    from sym [OF l] w have w': "ttt_winner s' = Some (ttt_current s)" by simp
    show ?thesis
      unfolding ttt_inv_def bs using lb cur c fin w' l sym by auto
  next
    case None
    with res cur show ?thesis
      unfolding ttt_inv_def bs using lb
      by (auto simp: ttt_flip_def split: if_splits)
  qed
qed

lemma ttt_reachable_inv: "ttt_reachable s \<Longrightarrow> ttt_inv s"
  by (induction rule: ttt_reachable.induct) (auto intro: ttt_inv_new ttt_inv_step)

lemma ttt_play_reachable: "ttt_reachable s \<Longrightarrow> ttt_play s ps = Some s' \<Longrightarrow> ttt_reachable s'"
proof (induction ps arbitrary: s)
  case Nil
  then show ?case by simp
next
  case (Cons p ps)
  then show ?case by (auto simp: bind_eq_Some_conv intro: ttt_step)
qed

lemma ttt_double_win_play:
  "ttt_play (new_ttt_state ''versus'' ''Ana'' ''Rui'') [0, 3, 1, 4, 5, 6, 8, 7, 2] = Some ttt_double_win"
  by code_simp

lemma ttt_double_win_reachable: "ttt_reachable ttt_double_win"
  using ttt_play_reachable [OF ttt_init ttt_double_win_play] .

text \<open>
  Claim C8, as stated, fails: after X on 0, 1, 5, 8 and O on 3, 4, 6, 7, X plays cell 2 and
  fills the line 0-1-2 and the line 2-5-8 with the same move. The state is reachable, the
  game is finished with winner X, and two winning lines hold three equal symbols.
\<close>

theorem ttt_two_lines_counterexample:
  "ttt_reachable ttt_double_win \<and> ttt_finished ttt_double_win \<and>
   ttt_winner ttt_double_win = Some ''X'' \<and>
   \<not> length (filter (ttt_line_full (ttt_board ttt_double_win)) TTT_WIN_LINES) \<le> 1"
  using ttt_double_win_reachable
  by (simp add: ttt_double_win_def TTT_WIN_LINES_def ttt_line_full_def)

text \<open>
  Claim C8, amended. In every state reachable from an initial state by \<open>_ttt_do_move\<close>
  calls, if the game is finished with a symbol as winner, then at least one winning line
  holds three equal symbols that are not empty, and every such line holds the winner's
  symbol: there is no line of the other player, though the winner may have more than one.
\<close>

theorem ttt_finished_lines_hold_winner:
  assumes "ttt_reachable s" and "ttt_finished s" and "ttt_winner s = Some w" and "w \<noteq> ''draw''"
  shows "(\<exists>l \<in> set TTT_WIN_LINES. ttt_line_full (ttt_board s) l) \<and>
         (\<forall>l \<in> set TTT_WIN_LINES. ttt_line_full (ttt_board s) l \<longrightarrow> ttt_line_symbol (ttt_board s) l = w)"
  using ttt_reachable_inv [OF assms(1)] assms(2-4) unfolding ttt_inv_def by blast

theorem ttt_finished_lines_hold_winner_witness:
  "ttt_reachable ttt_double_win \<and> ttt_finished ttt_double_win \<and>
   ttt_winner ttt_double_win = Some ''X'' \<and> ''X'' \<noteq> ''draw'' \<and>
   (\<exists>l \<in> set TTT_WIN_LINES. ttt_line_full (ttt_board ttt_double_win) l) \<and>
   ttt_line_full (ttt_board ttt_double_win) (2, 5, 8) \<and>
   ttt_line_symbol (ttt_board ttt_double_win) (2, 5, 8) = ''X''"
proof -
  have f: "ttt_finished ttt_double_win" and w: "ttt_winner ttt_double_win = Some ''X''"
    by (simp_all add: ttt_double_win_def)
  have d: "''X'' \<noteq> ''draw''" by simp
  have l: "(2, 5, 8) \<in> set TTT_WIN_LINES" by (simp add: TTT_WIN_LINES_def)
  have full: "ttt_line_full (ttt_board ttt_double_win) (2, 5, 8)"
    by (simp add: ttt_double_win_def ttt_line_full_def)
  from ttt_finished_lines_hold_winner [OF ttt_double_win_reachable f w d]
  show ?thesis using ttt_double_win_reachable f w d l full by blast
qed
section \<open>Properties of checkers\<close>

lemma ck_in_bounds_cell: "ck_in_bounds r c \<Longrightarrow> 0 \<le> r * 8 + c \<and> r * 8 + c < 64"
  by (auto simp: ck_in_bounds_def)

lemma ck_get_in_bounds:
  "length board = 64 \<Longrightarrow> ck_in_bounds r c \<Longrightarrow> py_get board (r * 8 + c) = Some (board ! nat (r * 8 + c))"
  using ck_in_bounds_cell [of r c] by (simp add: py_get_in_range)

lemma ck_jump_eval:
  assumes len: "length board = 64"
  shows "(if ck_in_bounds r2 c2 \<and> ck_in_bounds r1 c1 then
             do {
               p1 \<leftarrow> py_get board (r1 * 8 + c1);
               if ck_is_enemy p1 player then
                 do {
                   p2 \<leftarrow> py_get board (r2 * 8 + c2);
                   Some (if p2 = [] then [(r2 * 8 + c2, True)] else [])
                 }
               else Some []
             }
           else Some []) =
         Some (if ck_in_bounds r2 c2 \<and> ck_in_bounds r1 c1 \<and>
                  ck_is_enemy (board ! nat (r1 * 8 + c1)) player \<and> board ! nat (r2 * 8 + c2) = []
               then [(r2 * 8 + c2, True)] else [])"
  by (simp add: ck_get_in_bounds [OF len])

lemma ck_step_eval:
  assumes len: "length board = 64"
  shows "(if capture_only then Some []
           else if ck_in_bounds r1 c1 then
             do {
               p1 \<leftarrow> py_get board (r1 * 8 + c1);
               Some (if p1 = [] then [(r1 * 8 + c1, False)] else [])
             }
           else Some []) =
         Some (if \<not> capture_only \<and> ck_in_bounds r1 c1 \<and> board ! nat (r1 * 8 + c1) = []
               then [(r1 * 8 + c1, False)] else [])"
  by (simp add: ck_get_in_bounds [OF len])

lemma ck_scan_dirs_eval:
  assumes len: "length board = 64"
  shows "ck_scan_dirs board r c player capture_only ds =
           Some (concat (map (ck_dir_moves board r c player capture_only) ds))"
proof (induction ds)
  case Nil
  show ?case by simp
next
  case (Cons d ds)
  obtain dr dc where d: "d = (dr, dc)" by (cases d) auto
  have "ck_scan_dirs board r c player capture_only ((dr, dc) # ds) =
          Some ((if ck_in_bounds (r + 2 * dr) (c + 2 * dc) \<and> ck_in_bounds (r + dr) (c + dc) \<and>
                    ck_is_enemy (board ! nat ((r + dr) * 8 + (c + dc))) player \<and>
                    board ! nat ((r + 2 * dr) * 8 + (c + 2 * dc)) = []
                 then [((r + 2 * dr) * 8 + (c + 2 * dc), True)] else []) @
                (if \<not> capture_only \<and> ck_in_bounds (r + dr) (c + dc) \<and>
                    board ! nat ((r + dr) * 8 + (c + dc)) = []
                 then [((r + dr) * 8 + (c + dc), False)] else []) @
                concat (map (ck_dir_moves board r c player capture_only) ds))"
    by (simp only: ck_scan_dirs.simps Let_def ck_jump_eval [OF len] ck_step_eval [OF len]
        Cons.IH Option.bind.simps)
  also have "\<dots> = Some (concat (map (ck_dir_moves board r c player capture_only) ((dr, dc) # ds)))"
    by (simp add: ck_dir_moves_def ck_jump_ok_def ck_step_ok_def)
  finally show ?case unfolding d .
qed

lemma py_get_Some_iff:
  "(\<exists>x. py_get xs i = Some x) \<longleftrightarrow> - int (length xs) \<le> i \<and> i < int (length xs)"
  by (auto simp: py_get_def py_index_def)

lemma ck_piece_moves_total:
  assumes "length board = 64" and "- 64 \<le> i" and "i < 64"
  shows "\<exists>ms. ck_piece_moves board i capture_only = Some ms"
proof -
  from assms py_get_Some_iff [of board i] obtain piece where "py_get board i = Some piece"
    by auto
  then show ?thesis
    by (simp add: ck_piece_moves_def ck_scan_dirs_eval [OF assms(1)])
qed

lemma ck_piece_moves_eval:
  assumes "length board = 64" and "0 \<le> i" and "i < 64"
  shows "ck_piece_moves board i capture_only =
           Some (if board ! nat i = [] then []
                 else concat (map (ck_dir_moves board (i div 8) (i mod 8)
                                     (ck_piece_owner (board ! nat i)) capture_only)
                                  (ck_dirs (board ! nat i))))"
  using assms by (simp add: ck_piece_moves_def py_get_in_range ck_scan_dirs_eval)

lemma ck_captures_total:
  assumes "length board = 64" and "- 64 \<le> i" and "i < 64"
  shows "\<exists>ms. ck_captures board i = Some ms"
  using ck_piece_moves_total [OF assms, of True] by (auto simp: ck_captures_def)

lemma ck_steps_total:
  assumes "length board = 64" and "- 64 \<le> i" and "i < 64"
  shows "\<exists>ms. ck_steps board i = Some ms"
  using ck_piece_moves_total [OF assms, of False] by (auto simp: ck_steps_def)

lemma ck_captures_flag: "ck_captures board i = Some ms \<Longrightarrow> m \<in> set ms \<Longrightarrow> snd m"
  by (auto simp: ck_captures_def)

lemma ck_steps_flag: "ck_steps board i = Some ms \<Longrightarrow> m \<in> set ms \<Longrightarrow> \<not> snd m"
  by (auto simp: ck_steps_def)

lemma ck_collect_total:
  "(\<forall>i \<in> set is. \<exists>ms. gen i = Some ms) \<Longrightarrow> \<exists>r. ck_collect gen is acc = Some r"
  by (induction "is" arbitrary: acc) auto

lemma set_update_subset: "set (AList.update k v al) \<subseteq> insert (k, v) (set al)"
  by (induction al) auto

lemma ck_collect_entries:
  "ck_collect gen is acc = Some r \<Longrightarrow> (k, v) \<in> set r \<Longrightarrow>
   (k, v) \<in> set acc \<or> (k \<in> set is \<and> gen k = Some v \<and> v \<noteq> [])"
proof (induction "is" arbitrary: acc)
  case Nil
  then show ?case by simp
next
  case (Cons i "is")
  from Cons.prems(1) obtain ms where g: "gen i = Some ms"
    and rest: "ck_collect gen is (if ms \<noteq> [] then AList.update i ms acc else acc) = Some r"
    by (auto simp: bind_eq_Some_conv)
  from Cons.IH [OF rest Cons.prems(2)]
  show ?case
  proof
    assume a: "(k, v) \<in> set (if ms \<noteq> [] then AList.update i ms acc else acc)"
    show ?thesis
    proof (cases "ms = []")
      case True
      with a show ?thesis by simp
    next
      case False
      with a set_update_subset [of i ms acc] have "(k, v) = (i, ms) \<or> (k, v) \<in> set acc"
        by auto
      with g False show ?thesis by auto
    qed
  next
    assume "k \<in> set is \<and> gen k = Some v \<and> v \<noteq> []"
    then show ?thesis by simp
  qed
qed

lemma ck_collect_keys_mono:
  "ck_collect gen is acc = Some r \<Longrightarrow> fst ` set acc \<subseteq> fst ` set r"
proof (induction "is" arbitrary: acc)
  case Nil
  then show ?case by simp
next
  case (Cons i "is")
  from Cons.prems obtain ms where g: "gen i = Some ms"
    and rest: "ck_collect gen is (if ms \<noteq> [] then AList.update i ms acc else acc) = Some r"
    by (auto simp: bind_eq_Some_conv)
  from Cons.IH [OF rest] show ?case
    by (auto simp: dom_update split: if_splits)
qed

lemma ck_collect_has_key:
  "ck_collect gen is acc = Some r \<Longrightarrow> i \<in> set is \<Longrightarrow> gen i = Some ms \<Longrightarrow> ms \<noteq> [] \<Longrightarrow>
   i \<in> fst ` set r"
proof (induction "is" arbitrary: acc)
  case Nil
  then show ?case by simp
next
  case (Cons j "is")
  from Cons.prems(1) obtain ms' where g: "gen j = Some ms'"
    and rest: "ck_collect gen is (if ms' \<noteq> [] then AList.update j ms' acc else acc) = Some r"
    by (auto simp: bind_eq_Some_conv)
  show ?case
  proof (cases "i = j")
    case True
    with g Cons.prems(3,4) have "i \<in> fst ` set (if ms' \<noteq> [] then AList.update j ms' acc else acc)"
      by (simp add: dom_update)
    with ck_collect_keys_mono [OF rest] show ?thesis by blast
  next
    case False
    with Cons.prems(2) have "i \<in> set is" by simp
    from Cons.IH [OF rest this Cons.prems(3,4)] show ?thesis .
  qed
qed

lemma ck_piece_indexes_range:
  assumes "ck_wf s" and "i \<in> set (ck_piece_indexes s)"
  shows "0 \<le> i \<and> i < 64"
proof (cases "ck_forced_from s")
  case None
  with assms show ?thesis
    by (auto simp: ck_piece_indexes_def ck_wf_def in_set_enumerate_eq)
next
  case (Some f)
  with assms show ?thesis by (simp add: ck_piece_indexes_def ck_wf_def)
qed

lemma ck_piece_indexes_owner:
  "ck_forced_from s = None \<Longrightarrow>
   i \<in> set (ck_piece_indexes s) \<longleftrightarrow>
     0 \<le> i \<and> i < int (length (ck_board s)) \<and> ck_piece_owner (ck_board s ! nat i) = ck_turn s"
proof -
  assume none: "ck_forced_from s = None"
  show ?thesis
  proof
    assume "i \<in> set (ck_piece_indexes s)"
    then show "0 \<le> i \<and> i < int (length (ck_board s)) \<and>
               ck_piece_owner (ck_board s ! nat i) = ck_turn s"
      by (auto simp: ck_piece_indexes_def none in_set_enumerate_eq)
  next
    assume r: "0 \<le> i \<and> i < int (length (ck_board s)) \<and>
               ck_piece_owner (ck_board s ! nat i) = ck_turn s"
    then have "nat i < length (ck_board s)" by linarith
    then have "(nat i, ck_board s ! nat i) \<in> set (enumerate 0 (ck_board s))"
      by (simp add: in_set_enumerate_eq)
    with r have "(nat i, ck_board s ! nat i) \<in>
        set (filter (\<lambda>(i, p). ck_piece_owner p = ck_turn s) (enumerate 0 (ck_board s)))"
      by simp
    then have "(\<lambda>(i, p). int i) (nat i, ck_board s ! nat i) \<in> set (ck_piece_indexes s)"
      unfolding ck_piece_indexes_def none option.case set_map by (rule imageI)
    with r show "i \<in> set (ck_piece_indexes s)" by simp
  qed
qed

lemma ck_capture_map_total:
  assumes "ck_wf s"
  shows "\<exists>cm. ck_collect (ck_captures (ck_board s)) (ck_piece_indexes s) [] = Some cm"
proof (rule ck_collect_total, rule ballI)
  fix i assume "i \<in> set (ck_piece_indexes s)"
  with ck_piece_indexes_range [OF assms] have "0 \<le> i" "i < 64" by auto
  with assms show "\<exists>ms. ck_captures (ck_board s) i = Some ms"
    by (intro ck_captures_total) (auto simp: ck_wf_def)
qed

lemma ck_normal_map_total:
  assumes "ck_wf s"
  shows "\<exists>nm. ck_collect (ck_steps (ck_board s)) (ck_piece_indexes s) [] = Some nm"
proof (rule ck_collect_total, rule ballI)
  fix i assume "i \<in> set (ck_piece_indexes s)"
  with ck_piece_indexes_range [OF assms] have "0 \<le> i" "i < 64" by auto
  with assms show "\<exists>ms. ck_steps (ck_board s) i = Some ms"
    by (intro ck_steps_total) (auto simp: ck_wf_def)
qed

lemma ck_legal_moves_total:
  assumes "ck_wf s"
  shows "\<exists>lm. ck_legal_moves s = Some lm"
  using ck_capture_map_total [OF assms] ck_normal_map_total [OF assms]
  by (auto simp: ck_legal_moves_def)

lemma ck_legal_moves_capture:
  assumes wf: "ck_wf s" and i: "i \<in> set (ck_piece_indexes s)"
    and caps: "ck_captures (ck_board s) i = Some caps" and ne: "caps \<noteq> []"
  shows "\<exists>lm. ck_legal_moves s = Some lm \<and> lm \<noteq> [] \<and>
              ck_collect (ck_captures (ck_board s)) (ck_piece_indexes s) [] = Some lm"
proof -
  from ck_capture_map_total [OF wf] obtain cm
    where cm: "ck_collect (ck_captures (ck_board s)) (ck_piece_indexes s) [] = Some cm" by blast
  from ck_collect_has_key [OF cm i caps ne] have "cm \<noteq> []" by auto
  with cm show ?thesis by (simp add: ck_legal_moves_def)
qed

text \<open>
  Claim C1. In a state with a 64-cell board, if some candidate piece (the forced cell when
  set, otherwise a piece of the side to move) has a capture, then \<open>_ck_legal_moves\<close>
  returns, its mapping is not empty, and every entry lists, for a candidate piece, the
  captures of that piece: each listed pair \<open>(target, is_capture)\<close> has the flag set,
  so no simple step is offered for any piece.
\<close>

theorem ck_legal_moves_mandatory_capture:
  assumes wf: "ck_wf s" and i: "i \<in> set (ck_piece_indexes s)"
    and caps: "ck_captures (ck_board s) i = Some caps" and ne: "caps \<noteq> []"
  shows "\<exists>lm. ck_legal_moves s = Some lm \<and> lm \<noteq> [] \<and>
              (\<forall>(k, ms) \<in> set lm.
                  k \<in> set (ck_piece_indexes s) \<and> ck_captures (ck_board s) k = Some ms \<and>
                  ms \<noteq> [] \<and> (\<forall>(target, is_capture) \<in> set ms. is_capture))"
proof -
  from ck_legal_moves_capture [OF assms] obtain lm
    where lm: "ck_legal_moves s = Some lm" "lm \<noteq> []"
      and cm: "ck_collect (ck_captures (ck_board s)) (ck_piece_indexes s) [] = Some lm" by blast
  have "k \<in> set (ck_piece_indexes s) \<and> ck_captures (ck_board s) k = Some ms \<and>
        ms \<noteq> [] \<and> (\<forall>(target, is_capture) \<in> set ms. is_capture)"
    if "(k, ms) \<in> set lm" for k ms
  proof -
    from ck_collect_entries [OF cm that]
    have e: "k \<in> set (ck_piece_indexes s)" "ck_captures (ck_board s) k = Some ms" "ms \<noteq> []"
      by auto
    from ck_captures_flag [OF e(2)] have "\<forall>(target, is_capture) \<in> set ms. is_capture"
      by auto
    with e show ?thesis by simp
  qed
  with lm show ?thesis by blast
qed

theorem ck_legal_moves_mandatory_capture_witness:
  "ck_wf ck_ex_promote \<and> 17 \<in> set (ck_piece_indexes ck_ex_promote) \<and>
   ck_captures (ck_board ck_ex_promote) 17 = Some [(3, True)] \<and>
   ck_steps (ck_board ck_ex_promote) 40 = Some [(33, False)] \<and>
   (\<exists>lm. ck_legal_moves ck_ex_promote = Some lm \<and> lm \<noteq> []) \<and>
   ck_legal_moves ck_ex_promote = Some [(17, [(3, True)])]"
proof -
  have wf: "ck_wf ck_ex_promote" by code_simp
  have i: "17 \<in> set (ck_piece_indexes ck_ex_promote)" by code_simp
  have caps: "ck_captures (ck_board ck_ex_promote) 17 = Some [(3, True)]" by code_simp
  have ne: "[(3 :: int, True)] \<noteq> []" by simp
  have st: "ck_steps (ck_board ck_ex_promote) 40 = Some [(33, False)]" by code_simp
  have lm: "ck_legal_moves ck_ex_promote = Some [(17, [(3, True)])]" by code_simp
  from ck_legal_moves_mandatory_capture [OF wf i caps ne]
  have "\<exists>lm. ck_legal_moves ck_ex_promote = Some lm \<and> lm \<noteq> []" by blast
  with wf i caps st lm show ?thesis by blast
qed

lemma ck_legal_moves_forced:
  assumes wf: "ck_wf s" and f: "ck_forced_from s = Some f"
  shows "\<exists>caps. ck_captures (ck_board s) f = Some caps \<and>
                ck_legal_moves s = Some (if caps = [] then [] else [(f, caps)])"
proof -
  from wf f have len: "length (ck_board s) = 64" and r: "0 \<le> f" "f < 64"
    by (simp_all add: ck_wf_def)
  from ck_captures_total [OF len, of f] r obtain caps
    where caps: "ck_captures (ck_board s) f = Some caps" by auto
  have "ck_legal_moves s = Some (if caps = [] then [] else [(f, caps)])"
    by (simp add: ck_legal_moves_def ck_piece_indexes_def f caps)
  with caps show ?thesis by blast
qed

lemma ck_mid_range:
  assumes "0 \<le> f" "f < 64" "0 \<le> t" "t < 64"
  shows "0 \<le> ck_mid f t \<and> ck_mid f t < 64"
proof -
  have "0 \<le> f div 8" "f div 8 \<le> 7" "0 \<le> t div 8" "t div 8 \<le> 7" using assms by auto
  then have r: "0 \<le> (f div 8 + t div 8) div 2" "(f div 8 + t div 8) div 2 \<le> 7" by auto
  have "0 \<le> f mod 8" "f mod 8 \<le> 7" "0 \<le> t mod 8" "t mod 8 \<le> 7" by auto
  then have c: "0 \<le> (f mod 8 + t mod 8) div 2" "(f mod 8 + t mod 8) div 2 \<le> 7" by auto
  from r c show ?thesis unfolding ck_mid_def by linarith
qed

lemma ck_moved_board_alt:
  "ck_moved_board board0 from_idx to_idx is_capture =
     do {
       piece \<leftarrow> py_get board0 from_idx;
       board \<leftarrow> py_set board0 from_idx [];
       board \<leftarrow> py_set board to_idx piece;
       (board, promoted) \<leftarrow>
          (if piece = ''b'' \<and> to_idx div 8 = 0 then
             do { board \<leftarrow> py_set board to_idx ''B''; Some (board, True) }
           else if piece = ''g'' \<and> to_idx div 8 = 7 then
             do { board \<leftarrow> py_set board to_idx ''G''; Some (board, True) }
           else Some (board, False));
       if is_capture then
         do {
           board \<leftarrow> py_set board (ck_mid from_idx to_idx) [];
           Some (board, promoted)
         }
       else Some (board, promoted)
     }"
  by (simp only: ck_moved_board_def ck_mid_def Let_def)

lemma ck_moved_board_eval:
  assumes len: "length board = 64" and f: "0 \<le> from_idx" "from_idx < 64"
    and t: "0 \<le> to_idx" "to_idx < 64"
  shows "ck_moved_board board from_idx to_idx is_capture =
           Some (let piece = board ! nat from_idx;
                     b = board[nat from_idx := [], nat to_idx := ck_landed piece to_idx]
                 in (if is_capture then b[nat (ck_mid from_idx to_idx) := []] else b,
                     ck_promotes piece to_idx))"
proof -
  from ck_mid_range [OF f t] have m: "0 \<le> ck_mid from_idx to_idx" "ck_mid from_idx to_idx < 64"
    by simp_all
  show ?thesis
    using len f t m
    by (simp add: ck_moved_board_alt py_get_in_range py_set_in_range Let_def
        ck_landed_def ck_promotes_def)
qed

lemma ck_wf_flipped: "length (ck_board s) = 64 \<Longrightarrow> ck_wf (ck_flipped s)"
  by (simp add: ck_wf_def ck_flipped_def)

lemma ck_finalize_no_pieces:
  assumes "filter (\<lambda>p. ck_piece_owner p = ck_opp (ck_turn s)) (ck_board s) = []"
  shows "ck_finalize_turn_if_needed s =
           Some (s\<lparr> ck_finished := True, ck_winner := Some (ck_turn s),
                     ck_winner_name := ck_current_name s,
                     ck_score_blue := (if ck_turn s = ''b'' then ck_score_blue s + 1 else ck_score_blue s),
                     ck_score_green := (if ck_turn s = ''b'' then ck_score_green s else ck_score_green s + 1),
                     ck_show_overlay := True,
                     ck_message := vitoria_de @ ck_current_name s \<rparr>)"
  using assms by (simp add: ck_finalize_turn_if_needed_def ck_opp_def Let_def ck_current_name_def)

lemma ck_finalize_pieces:
  assumes "filter (\<lambda>p. ck_piece_owner p = ck_opp (ck_turn s)) (ck_board s) \<noteq> []"
    and "ck_legal_moves (ck_flipped s) = Some lm"
  shows "ck_finalize_turn_if_needed s =
           Some (if lm = [] then
                   (let w = ck_opp (ck_opp (ck_turn s));
                        n = (if w = ''b'' then ck_blue_name s else ck_green_name s) in
                    (ck_flipped s)\<lparr> ck_finished := True, ck_winner := Some w,
                       ck_winner_name := n,
                       ck_score_blue := (if w = ''b'' then ck_score_blue s + 1 else ck_score_blue s),
                       ck_score_green := (if w = ''b'' then ck_score_green s else ck_score_green s + 1),
                       ck_show_overlay := True,
                       ck_message := vitoria_de @ n \<rparr>)
                 else (ck_flipped s)\<lparr> ck_message := ''Vez de '' @ ck_current_name (ck_flipped s) \<rparr>)"
proof (cases "ck_turn s = ''b''")
  case True
  with assms have a: "filter (\<lambda>p. ck_piece_owner p = ''g'') (ck_board s) \<noteq> []"
    and lm: "ck_legal_moves (s\<lparr> ck_turn := ''g'', ck_selected := None, ck_forced_from := None \<rparr>)
               = Some lm"
    by (simp_all add: ck_opp_def ck_flipped_def)
  show ?thesis
    using True a lm
    by (simp add: ck_finalize_turn_if_needed_def Let_def ck_opp_def ck_flipped_def
        ck_current_name_def)
next
  case False
  with assms have a: "filter (\<lambda>p. ck_piece_owner p = ''b'') (ck_board s) \<noteq> []"
    and lm: "ck_legal_moves (s\<lparr> ck_turn := ''b'', ck_selected := None, ck_forced_from := None \<rparr>)
               = Some lm"
    by (simp_all add: ck_opp_def ck_flipped_def)
  show ?thesis
    using False a lm
    by (simp add: ck_finalize_turn_if_needed_def Let_def ck_opp_def ck_flipped_def
        ck_current_name_def)
qed

lemma ck_finalize_total:
  assumes "length (ck_board s) = 64"
  shows "\<exists>s'. ck_finalize_turn_if_needed s = Some s'"
proof (cases "filter (\<lambda>p. ck_piece_owner p = ck_opp (ck_turn s)) (ck_board s) = []")
  case True
  then show ?thesis by (simp add: ck_finalize_no_pieces)
next
  case False
  from ck_legal_moves_total [OF ck_wf_flipped [OF assms]] obtain lm
    where "ck_legal_moves (ck_flipped s) = Some lm" by blast
  from ck_finalize_pieces [OF False this] show ?thesis by simp
qed

lemma ck_finalize_pieces_none:
  assumes "filter (\<lambda>p. ck_piece_owner p = ck_opp (ck_turn s)) (ck_board s) \<noteq> []"
    and "ck_legal_moves (ck_flipped s) = None"
  shows "ck_finalize_turn_if_needed s = None"
proof (cases "ck_turn s = ''b''")
  case True
  with assms have a: "filter (\<lambda>p. ck_piece_owner p = ''g'') (ck_board s) \<noteq> []"
    and lm: "ck_legal_moves (s\<lparr> ck_turn := ''g'', ck_selected := None, ck_forced_from := None \<rparr>)
               = None"
    by (simp_all add: ck_opp_def ck_flipped_def)
  show ?thesis
    using True a lm by (simp add: ck_finalize_turn_if_needed_def Let_def)
next
  case False
  with assms have a: "filter (\<lambda>p. ck_piece_owner p = ''b'') (ck_board s) \<noteq> []"
    and lm: "ck_legal_moves (s\<lparr> ck_turn := ''b'', ck_selected := None, ck_forced_from := None \<rparr>)
               = None"
    by (simp_all add: ck_opp_def ck_flipped_def)
  show ?thesis
    using False a lm by (simp add: ck_finalize_turn_if_needed_def Let_def)
qed

lemma ck_finalize_props:
  assumes "ck_finalize_turn_if_needed s = Some s'"
  shows "ck_board s' = ck_board s \<and>
         (ck_forced_from s' = None \<or> ck_forced_from s' = ck_forced_from s) \<and>
         ck_score_blue s \<le> ck_score_blue s' \<and> ck_score_green s \<le> ck_score_green s' \<and>
         ck_blue_name s' = ck_blue_name s \<and> ck_green_name s' = ck_green_name s"
proof (cases "filter (\<lambda>p. ck_piece_owner p = ck_opp (ck_turn s)) (ck_board s) = []")
  case True
  from assms show ?thesis unfolding ck_finalize_no_pieces [OF True] by auto
next
  case False
  show ?thesis
  proof (cases "ck_legal_moves (ck_flipped s)")
    case None
    from ck_finalize_pieces_none [OF False None] assms show ?thesis by simp
  next
    case (Some lm)
    from assms show ?thesis
      unfolding ck_finalize_pieces [OF False Some]
      by (auto simp: ck_flipped_def Let_def split: if_splits)
  qed
qed

lemma ck_opp_opp: "t = ''b'' \<or> t = ''g'' \<Longrightarrow> ck_opp (ck_opp t) = t"
  by (auto simp: ck_opp_def)

text \<open>
  Claim C4. End-of-turn handling on a 64-cell board with \<open>turn\<close> blue or green always
  returns. If the opponent has no piece left, the game is finished and the winner is the
  side to move. Otherwise the turn passes to the opponent, and if the opponent has no
  legal move the game is finished and the winner is the side that just moved; in neither
  case is the winner \<open>draw\<close>. Otherwise \<open>finished\<close> and \<open>winner\<close> stay as they
  were and the message names the new turn-holder.
\<close>

theorem ck_finalize_turn_spec:
  assumes len: "length (ck_board s) = 64" and turn: "ck_turn s = ''b'' \<or> ck_turn s = ''g''"
  shows "\<exists>s'. ck_finalize_turn_if_needed s = Some s' \<and>
           (if filter (\<lambda>p. ck_piece_owner p = ck_opp (ck_turn s)) (ck_board s) = [] then
              ck_finished s' \<and> ck_winner s' = Some (ck_turn s) \<and> ck_winner s' \<noteq> Some ''draw''
            else
              ck_turn s' = ck_opp (ck_turn s) \<and>
              (\<exists>lm. ck_legal_moves (ck_flipped s) = Some lm \<and>
                 (if lm = [] then
                    ck_finished s' \<and> ck_winner s' = Some (ck_turn s) \<and>
                    ck_winner s' \<noteq> Some ''draw''
                  else
                    ck_finished s' = ck_finished s \<and> ck_winner s' = ck_winner s \<and>
                    ck_message s' =
                      ''Vez de '' @ (if ck_turn s' = ''b'' then ck_blue_name s else ck_green_name s))))"
proof (cases "filter (\<lambda>p. ck_piece_owner p = ck_opp (ck_turn s)) (ck_board s) = []")
  case True
  with turn show ?thesis by (auto simp: ck_finalize_no_pieces)
next
  case False
  from ck_legal_moves_total [OF ck_wf_flipped [OF len]] obtain lm
    where lm: "ck_legal_moves (ck_flipped s) = Some lm" by blast
  show ?thesis
  proof (cases "lm = []")
    case True
    with False lm turn show ?thesis
      by (auto simp: ck_finalize_pieces ck_opp_opp Let_def ck_flipped_def)
  next
    case ne: False
    with False lm turn show ?thesis
      by (auto simp: ck_finalize_pieces ck_flipped_def ck_current_name_def)
  qed
qed

theorem ck_finalize_turn_spec_witness:
  "length (ck_board ck_ex_alone) = 64 \<and> ck_turn ck_ex_alone = ''b'' \<and>
   (\<exists>s'. ck_finalize_turn_if_needed ck_ex_alone = Some s' \<and> ck_finished s' \<and>
         ck_winner s' = Some ''b'') \<and>
   length (ck_board ck_ex_blocked) = 64 \<and> ck_turn ck_ex_blocked = ''b'' \<and>
   ck_legal_moves (ck_flipped ck_ex_blocked) = Some [] \<and>
   (\<exists>s'. ck_finalize_turn_if_needed ck_ex_blocked = Some s' \<and> ck_finished s' \<and>
         ck_winner s' = Some ''b'') \<and>
   length (ck_board ck_ex_quiet) = 64 \<and> ck_turn ck_ex_quiet = ''b'' \<and>
   (\<exists>s'. ck_finalize_turn_if_needed ck_ex_quiet = Some s' \<and> \<not> ck_finished s' \<and>
         ck_turn s' = ''g'' \<and> ck_message s' = ''Vez de Verde'')"
proof -
  have l1: "length (ck_board ck_ex_alone) = 64" and t1: "ck_turn ck_ex_alone = ''b''"
    and n1: "filter (\<lambda>p. ck_piece_owner p = ck_opp (ck_turn ck_ex_alone)) (ck_board ck_ex_alone) = []"
    by code_simp+
  have l2: "length (ck_board ck_ex_blocked) = 64" and t2: "ck_turn ck_ex_blocked = ''b''"
    and n2: "filter (\<lambda>p. ck_piece_owner p = ck_opp (ck_turn ck_ex_blocked)) (ck_board ck_ex_blocked)
               = [''g'']"
    and m2: "ck_legal_moves (ck_flipped ck_ex_blocked) = Some []"
    by code_simp+
  have l3: "length (ck_board ck_ex_quiet) = 64" and t3: "ck_turn ck_ex_quiet = ''b''"
    and n3: "filter (\<lambda>p. ck_piece_owner p = ck_opp (ck_turn ck_ex_quiet)) (ck_board ck_ex_quiet)
               = [''g'']"
    and m3: "ck_legal_moves (ck_flipped ck_ex_quiet) = Some [(1, [(8, False), (10, False)])]"
    and f3: "\<not> ck_finished ck_ex_quiet" and g3: "ck_green_name ck_ex_quiet = ''Verde''"
    by code_simp+
  from ck_finalize_turn_spec [of ck_ex_alone] l1 t1 n1
  have p1: "\<exists>s'. ck_finalize_turn_if_needed ck_ex_alone = Some s' \<and> ck_finished s' \<and>
         ck_winner s' = Some ''b''" by auto
  from ck_finalize_turn_spec [of ck_ex_blocked] l2 t2 n2 m2
  have p2: "\<exists>s'. ck_finalize_turn_if_needed ck_ex_blocked = Some s' \<and> ck_finished s' \<and>
         ck_winner s' = Some ''b''" by auto
  from ck_finalize_turn_spec [of ck_ex_quiet] l3 t3 n3 m3 f3 g3
  have p3: "\<exists>s'. ck_finalize_turn_if_needed ck_ex_quiet = Some s' \<and> \<not> ck_finished s' \<and>
         ck_turn s' = ''g'' \<and> ck_message s' = ''Vez de Verde''"
    by (auto simp: ck_opp_def)
  from l1 t1 p1 l2 t2 m2 p2 l3 t3 p3 show ?thesis by blast
qed

lemma ck_dir_moves_capture:
  assumes "(t, cap) \<in> set (ck_dir_moves board r c player True d)"
  shows "cap \<and> ck_jump_ok board r c player d \<and> t = (r + 2 * fst d) * 8 + (c + 2 * snd d)"
  using assms by (cases d) (auto simp: ck_dir_moves_def split: if_splits)

lemma ck_captures_geometry:
  assumes len: "length board = 64" and f: "0 \<le> f" "f < 64"
    and caps: "ck_captures board f = Some caps" and mv: "(t, cap) \<in> set caps"
  shows "\<exists>dr dc. (dr, dc) \<in> set (ck_dirs (board ! nat f)) \<and>
           ck_jump_ok board (f div 8) (f mod 8) (ck_piece_owner (board ! nat f)) (dr, dc) \<and>
           t = (f div 8 + 2 * dr) * 8 + (f mod 8 + 2 * dc)"
proof -
  let ?ms = "concat (map (ck_dir_moves board (f div 8) (f mod 8)
                           (ck_piece_owner (board ! nat f)) True)
                        (ck_dirs (board ! nat f)))"
  from caps have "caps = filter snd (if board ! nat f = [] then [] else ?ms)"
    unfolding ck_captures_def ck_piece_moves_eval [OF len f] by auto
  with mv have "(t, cap) \<in> set ?ms" by (auto split: if_splits)
  then obtain d where d: "d \<in> set (ck_dirs (board ! nat f))"
    and m: "(t, cap) \<in> set (ck_dir_moves board (f div 8) (f mod 8)
                             (ck_piece_owner (board ! nat f)) True d)"
    unfolding set_concat set_map by blast
  from ck_dir_moves_capture [OF m] d show ?thesis by (cases d) auto
qed

lemma ck_dirs_unit: "(dr, dc) \<in> set (ck_dirs piece) \<Longrightarrow> (dr = 1 \<or> dr = -1) \<and> (dc = 1 \<or> dc = -1)"
  by (auto simp: ck_dirs_def split: if_splits)

lemma ck_cell_div_mod:
  "0 \<le> (c2 :: int) \<Longrightarrow> c2 < 8 \<Longrightarrow> (r2 * 8 + c2) div 8 = r2 \<and> (r2 * 8 + c2) mod 8 = c2"
  by simp

lemma ck_jump_arith:
  assumes f: "0 \<le> f" "f < 64"
    and d: "dr = 1 \<or> dr = -1" "dc = 1 \<or> dc = -1"
    and b: "ck_in_bounds (f div 8 + 2 * dr) (f mod 8 + 2 * dc)"
    and t: "t = (f div 8 + 2 * dr) * 8 + (f mod 8 + 2 * dc)"
  shows "0 \<le> t \<and> t < 64 \<and> t div 8 = f div 8 + 2 * dr \<and> t mod 8 = f mod 8 + 2 * dc \<and>
         ck_mid f t = (f div 8 + dr) * 8 + (f mod 8 + dc) \<and>
         0 \<le> ck_mid f t \<and> ck_mid f t < 64 \<and> ck_mid f t \<noteq> t \<and> ck_mid f t \<noteq> f \<and> t \<noteq> f"
proof -
  define r c where "r = f div 8" and "c = f mod 8"
  have fe: "f = r * 8 + c" by (simp add: r_def c_def)
  have rc: "0 \<le> r" "r \<le> 7" "0 \<le> c" "c \<le> 7" using f by (auto simp: r_def c_def)
  from b have b': "0 \<le> r + 2 * dr" "r + 2 * dr < 8" "0 \<le> c + 2 * dc" "c + 2 * dc < 8"
    by (simp_all add: ck_in_bounds_def r_def c_def)
  have t': "t = (r + 2 * dr) * 8 + (c + 2 * dc)" using t by (simp add: r_def c_def)
  have td: "t div 8 = r + 2 * dr" and tm: "t mod 8 = c + 2 * dc"
    using ck_cell_div_mod [of "c + 2 * dc" "r + 2 * dr"] b' unfolding t' by blast+
  have mr: "(r + (r + 2 * dr)) div 2 = r + dr" and mc: "(c + (c + 2 * dc)) div 2 = c + dc"
    by auto
  have mid: "ck_mid f t = (r + dr) * 8 + (c + dc)"
    unfolding ck_mid_def td tm r_def [symmetric] c_def [symmetric] mr mc ..
  show ?thesis
    unfolding mid td tm
    unfolding r_def [symmetric] c_def [symmetric]
    using rc b' d unfolding t' fe by auto
qed

lemma ck_apply_move_eval:
  assumes len: "length (ck_board s) = 64" and f: "0 \<le> from_idx" "from_idx < 64"
    and t: "0 \<le> to_idx" "to_idx < 64"
  shows "ck_moved_board (ck_board s) from_idx to_idx is_capture =
           Some (ck_after_move (ck_board s) from_idx to_idx is_capture,
                 ck_promotes (ck_board s ! nat from_idx) to_idx) \<and>
         ck_apply_move s from_idx to_idx is_capture =
           (let b' = ck_after_move (ck_board s) from_idx to_idx is_capture in
            if is_capture \<and> \<not> ck_promotes (ck_board s ! nat from_idx) to_idx then
              do {
                next_caps \<leftarrow> ck_captures b' to_idx;
                if next_caps \<noteq> [] then
                  Some (s\<lparr> ck_board := b', ck_forced_from := Some to_idx,
                           ck_selected := Some to_idx, ck_message := captura_obrigatoria \<rparr>)
                else ck_finalize_turn_if_needed (s\<lparr> ck_board := b' \<rparr>)
              }
            else ck_finalize_turn_if_needed (s\<lparr> ck_board := b' \<rparr>))"
  by (simp add: ck_apply_move_def ck_moved_board_eval [OF len f t] Let_def ck_after_move_def)

lemma ck_after_move_length: "length (ck_after_move board f t cap) = length board"
  by (simp add: ck_after_move_def Let_def)

text \<open>
  Claim C2. Applying a capture the move generator lists for a blue man that lands on row 0,
  or a green man that lands on row 7, puts a king on the target cell, empties the source
  cell and hands the state straight to end-of-turn handling: the result is that of
  \<open>_ck_finalize_turn_if_needed\<close> on the new board, whatever captures the king would
  have from the landing cell. \<open>forced_from\<close> is never assigned: afterwards it is
  \<open>None\<close>, or what it was before when the game ended on this capture.
\<close>

theorem ck_apply_move_promotion:
  assumes len: "length (ck_board s) = 64" and f: "0 \<le> from_idx" "from_idx < 64"
    and caps: "ck_captures (ck_board s) from_idx = Some caps" and mv: "(to_idx, True) \<in> set caps"
    and man: "ck_board s ! nat from_idx = ''b'' \<and> to_idx div 8 = 0 \<or>
              ck_board s ! nat from_idx = ''g'' \<and> to_idx div 8 = 7"
  shows "\<exists>b' s'. ck_moved_board (ck_board s) from_idx to_idx True = Some (b', True) \<and>
           b' ! nat to_idx = (if ck_board s ! nat from_idx = ''b'' then ''B'' else ''G'') \<and>
           b' ! nat from_idx = [] \<and>
           ck_apply_move s from_idx to_idx True = ck_finalize_turn_if_needed (s\<lparr> ck_board := b' \<rparr>) \<and>
           ck_apply_move s from_idx to_idx True = Some s' \<and> ck_board s' = b' \<and>
           (ck_forced_from s' = None \<or> ck_forced_from s' = ck_forced_from s)"
proof -
  from ck_captures_geometry [OF len f caps mv] obtain dr dc
    where d: "(dr, dc) \<in> set (ck_dirs (ck_board s ! nat from_idx))"
      and j: "ck_jump_ok (ck_board s) (from_idx div 8) (from_idx mod 8)
                (ck_piece_owner (ck_board s ! nat from_idx)) (dr, dc)"
      and te: "to_idx = (from_idx div 8 + 2 * dr) * 8 + (from_idx mod 8 + 2 * dc)"
    by blast
  from j have b: "ck_in_bounds (from_idx div 8 + 2 * dr) (from_idx mod 8 + 2 * dc)"
    by (simp add: ck_jump_ok_def)
  from ck_dirs_unit [OF d] have u: "dr = 1 \<or> dr = -1" "dc = 1 \<or> dc = -1" by simp_all
  from ck_jump_arith [OF f u b te]
  have t: "0 \<le> to_idx" "to_idx < 64"
    and m: "0 \<le> ck_mid from_idx to_idx" "ck_mid from_idx to_idx \<noteq> to_idx"
           "ck_mid from_idx to_idx \<noteq> from_idx" "to_idx \<noteq> from_idx"
    by simp_all
  define b' where "b' = ck_after_move (ck_board s) from_idx to_idx True"
  from man have pr: "ck_promotes (ck_board s ! nat from_idx) to_idx"
    by (simp add: ck_promotes_def)
  from ck_apply_move_eval [OF len f t, of True] pr
  have mb: "ck_moved_board (ck_board s) from_idx to_idx True = Some (b', True)"
    and ap: "ck_apply_move s from_idx to_idx True = ck_finalize_turn_if_needed (s\<lparr> ck_board := b' \<rparr>)"
    by (simp_all add: b'_def Let_def)
  have lb: "length b' = 64" by (simp add: b'_def ck_after_move_length len)
  from ck_finalize_total [of "s\<lparr> ck_board := b' \<rparr>"] lb obtain s'
    where s': "ck_finalize_turn_if_needed (s\<lparr> ck_board := b' \<rparr>) = Some s'" by auto
  from ck_finalize_props [OF s']
  have pb: "ck_board s' = b'" and pf: "ck_forced_from s' = None \<or> ck_forced_from s' = ck_forced_from s"
    by simp_all
  have nt: "nat (ck_mid from_idx to_idx) \<noteq> nat to_idx" "nat (ck_mid from_idx to_idx) \<noteq> nat from_idx"
      "nat to_idx \<noteq> nat from_idx" "nat to_idx < 64" "nat from_idx < 64"
    using m t f by auto
  have at_to: "b' ! nat to_idx = (if ck_board s ! nat from_idx = ''b'' then ''B'' else ''G'')"
    using man nt len by (auto simp: b'_def ck_after_move_def ck_landed_def Let_def)
  have at_from: "b' ! nat from_idx = []"
    using nt len by (simp add: b'_def ck_after_move_def Let_def)
  from mb ap s' pb pf at_to at_from show ?thesis by auto
qed

theorem ck_apply_move_promotion_witness:
  "length (ck_board ck_ex_promote) = 64 \<and>
   ck_captures (ck_board ck_ex_promote) 17 = Some [(3, True)] \<and>
   ck_board ck_ex_promote ! nat 17 = ''b'' \<and> (3 :: int) div 8 = 0 \<and>
   (\<exists>s'. ck_apply_move ck_ex_promote 17 3 True = Some s' \<and>
         ck_board s' ! nat 3 = ''B'' \<and> ck_forced_from s' = None \<and> ck_turn s' = ''g'' \<and>
         ck_captures (ck_board s') 3 = Some [(21, True)])"
proof -
  have len: "length (ck_board ck_ex_promote) = 64" by code_simp
  have f: "(0 :: int) \<le> 17" "(17 :: int) < 64" by simp_all
  have caps: "ck_captures (ck_board ck_ex_promote) 17 = Some [(3, True)]" by code_simp
  have mv: "(3, True) \<in> set [(3 :: int, True)]" by simp
  have man: "ck_board ck_ex_promote ! nat 17 = ''b'' \<and> (3 :: int) div 8 = 0 \<or>
             ck_board ck_ex_promote ! nat 17 = ''g'' \<and> (3 :: int) div 8 = 7" by code_simp
  have b: "ck_board ck_ex_promote ! nat 17 = ''b''" by code_simp
  have ev: "map_option (\<lambda>s. (ck_forced_from s, ck_turn s, ck_captures (ck_board s) 3))
              (ck_apply_move ck_ex_promote 17 3 True) = Some (None, ''g'', Some [(21, True)])"
    by code_simp
  from ck_apply_move_promotion [OF len f caps mv man] obtain b' s'
    where "b' ! nat 3 = (if ck_board ck_ex_promote ! nat 17 = ''b'' then ''B'' else ''G'')"
      and "ck_apply_move ck_ex_promote 17 3 True = Some s'" and "ck_board s' = b'"
    by blast
  with b ev have "ck_apply_move ck_ex_promote 17 3 True = Some s' \<and>
         ck_board s' ! nat 3 = ''B'' \<and> ck_forced_from s' = None \<and> ck_turn s' = ''g'' \<and>
         ck_captures (ck_board s') 3 = Some [(21, True)]"
    by auto
  with len caps b show ?thesis by auto
qed

text \<open>
  Claim C3. With \<open>forced_from\<close> set, \<open>_ck_legal_moves\<close> returns the captures of that
  one cell under that one key, and the empty mapping exactly when the cell has no capture.
  After a capture that does not promote, the captures of the moved piece from its landing
  cell are computed: if there is one, \<open>forced_from\<close> is the landing cell and
  \<open>turn\<close> (and \<open>finished\<close>) are unchanged; otherwise the result is that of
  end-of-turn handling on the new board.
\<close>

theorem ck_forced_chain:
  shows "(ck_wf s \<and> ck_forced_from s = Some f \<longrightarrow>
            (\<exists>caps. ck_captures (ck_board s) f = Some caps \<and>
                    ck_legal_moves s = Some (if caps = [] then [] else [(f, caps)]))) \<and>
         (length (ck_board s) = 64 \<and> 0 \<le> from_idx \<and> from_idx < 64 \<and> 0 \<le> to_idx \<and> to_idx < 64 \<and>
          \<not> ck_promotes (ck_board s ! nat from_idx) to_idx \<longrightarrow>
            (\<exists>b' next_caps.
               ck_moved_board (ck_board s) from_idx to_idx True = Some (b', False) \<and>
               ck_captures b' to_idx = Some next_caps \<and>
               (if next_caps \<noteq> [] then
                  (\<exists>s'. ck_apply_move s from_idx to_idx True = Some s' \<and> ck_board s' = b' \<and>
                        ck_forced_from s' = Some to_idx \<and> ck_turn s' = ck_turn s \<and>
                        ck_finished s' = ck_finished s)
                else
                  (\<exists>s'. ck_apply_move s from_idx to_idx True = Some s' \<and>
                        ck_finalize_turn_if_needed (s\<lparr> ck_board := b' \<rparr>) = Some s'))))"
proof (intro conjI impI)
  assume "ck_wf s \<and> ck_forced_from s = Some f"
  then show "\<exists>caps. ck_captures (ck_board s) f = Some caps \<and>
                    ck_legal_moves s = Some (if caps = [] then [] else [(f, caps)])"
    using ck_legal_moves_forced by blast
next
  assume a: "length (ck_board s) = 64 \<and> 0 \<le> from_idx \<and> from_idx < 64 \<and> 0 \<le> to_idx \<and> to_idx < 64 \<and>
          \<not> ck_promotes (ck_board s ! nat from_idx) to_idx"
  then have len: "length (ck_board s) = 64" and f: "0 \<le> from_idx" "from_idx < 64"
    and t: "0 \<le> to_idx" "to_idx < 64"
    and np: "\<not> ck_promotes (ck_board s ! nat from_idx) to_idx" by simp_all
  define b' where "b' = ck_after_move (ck_board s) from_idx to_idx True"
  have lb: "length b' = 64" by (simp add: b'_def ck_after_move_length len)
  from ck_captures_total [OF lb, of to_idx] t obtain next_caps
    where nc: "ck_captures b' to_idx = Some next_caps" by auto
  from ck_apply_move_eval [OF len f t, of True] np
  have mb: "ck_moved_board (ck_board s) from_idx to_idx True = Some (b', False)"
    and ap: "ck_apply_move s from_idx to_idx True =
               (if next_caps \<noteq> [] then
                  Some (s\<lparr> ck_board := b', ck_forced_from := Some to_idx,
                           ck_selected := Some to_idx, ck_message := captura_obrigatoria \<rparr>)
                else ck_finalize_turn_if_needed (s\<lparr> ck_board := b' \<rparr>))"
    by (simp_all add: b'_def [symmetric] Let_def nc)
  from ck_finalize_total [of "s\<lparr> ck_board := b' \<rparr>"] lb obtain s1
    where s1: "ck_finalize_turn_if_needed (s\<lparr> ck_board := b' \<rparr>) = Some s1" by auto
  have "if next_caps \<noteq> [] then
          (\<exists>s'. ck_apply_move s from_idx to_idx True = Some s' \<and> ck_board s' = b' \<and>
                ck_forced_from s' = Some to_idx \<and> ck_turn s' = ck_turn s \<and>
                ck_finished s' = ck_finished s)
        else
          (\<exists>s'. ck_apply_move s from_idx to_idx True = Some s' \<and>
                ck_finalize_turn_if_needed (s\<lparr> ck_board := b' \<rparr>) = Some s')"
    using ap s1 by simp
  with mb nc show "\<exists>b' next_caps.
               ck_moved_board (ck_board s) from_idx to_idx True = Some (b', False) \<and>
               ck_captures b' to_idx = Some next_caps \<and>
               (if next_caps \<noteq> [] then
                  (\<exists>s'. ck_apply_move s from_idx to_idx True = Some s' \<and> ck_board s' = b' \<and>
                        ck_forced_from s' = Some to_idx \<and> ck_turn s' = ck_turn s \<and>
                        ck_finished s' = ck_finished s)
                else
                  (\<exists>s'. ck_apply_move s from_idx to_idx True = Some s' \<and>
                        ck_finalize_turn_if_needed (s\<lparr> ck_board := b' \<rparr>) = Some s'))"
    by blast
qed

theorem ck_forced_chain_witness:
  "ck_wf ck_ex_forced \<and> ck_forced_from ck_ex_forced = Some 35 \<and>
   ck_legal_moves ck_ex_forced = Some [(35, [(21, True)])] \<and>
   length (ck_board ck_ex_chain) = 64 \<and>
   \<not> ck_promotes (ck_board ck_ex_chain ! nat 49) 35 \<and>
   (\<exists>s'. ck_apply_move ck_ex_chain 49 35 True = Some s' \<and>
         ck_forced_from s' = Some 35 \<and> ck_turn s' = ''b'') \<and>
   \<not> ck_promotes (ck_board ck_ex_forced ! nat 35) 21 \<and>
   (\<exists>s'. ck_apply_move ck_ex_forced 35 21 True = Some s' \<and>
         ck_forced_from s' = None \<and> ck_turn s' = ''g'')"
proof -
  have wf: "ck_wf ck_ex_forced" and ff: "ck_forced_from ck_ex_forced = Some 35"
    and caps: "ck_captures (ck_board ck_ex_forced) 35 = Some [(21, True)]"
    and len: "length (ck_board ck_ex_chain) = 64" and len': "length (ck_board ck_ex_forced) = 64"
    and np: "\<not> ck_promotes (ck_board ck_ex_chain ! nat 49) 35"
    and np': "\<not> ck_promotes (ck_board ck_ex_forced ! nat 35) 21"
    by code_simp+
  have nc: "ck_captures (ck_after_move (ck_board ck_ex_chain) 49 35 True) 35 = Some [(21, True)]"
    and nc': "ck_captures (ck_after_move (ck_board ck_ex_forced) 35 21 True) 21 = Some []"
    and mb: "ck_moved_board (ck_board ck_ex_chain) 49 35 True =
               Some (ck_after_move (ck_board ck_ex_chain) 49 35 True, False)"
    and mb': "ck_moved_board (ck_board ck_ex_forced) 35 21 True =
               Some (ck_after_move (ck_board ck_ex_forced) 35 21 True, False)"
    by code_simp+
  have fin: "map_option (\<lambda>s. (ck_forced_from s, ck_turn s))
               (ck_finalize_turn_if_needed
                  (ck_ex_forced\<lparr> ck_board := ck_after_move (ck_board ck_ex_forced) 35 21 True \<rparr>))
             = Some (None, ''g'')"
    by code_simp
  from ck_forced_chain [of ck_ex_forced 35 49 35] wf ff caps
  have p1: "ck_legal_moves ck_ex_forced = Some [(35, [(21, True)])]" by auto
  from ck_forced_chain [of ck_ex_chain 0 49 35] len np mb nc
  have p2: "\<exists>s'. ck_apply_move ck_ex_chain 49 35 True = Some s' \<and>
         ck_forced_from s' = Some 35 \<and> ck_turn s' = ''b''"
    by (auto simp: ck_ex_chain_def ck_example_def)
  from ck_forced_chain [of ck_ex_forced 0 35 21] len' np' mb' nc' fin
  have p3: "\<exists>s'. ck_apply_move ck_ex_forced 35 21 True = Some s' \<and>
         ck_forced_from s' = None \<and> ck_turn s' = ''g''"
    by auto
  from wf ff p1 len np p2 np' p3 show ?thesis by blast
qed

section \<open>Properties of the session store\<close>

lemma store_update_keys:
  "map fst (AList.update k v al) = (if k \<in> set (map fst al) then map fst al else map fst al @ [k])"
  by (induction al) auto

lemma store_delete_head:
  assumes "distinct (map fst ((k, v) # al))"
  shows "AList.delete k ((k, v) # al) = al"
  using assms by (simp add: delete_id image_iff)

lemma store_save_cases:
  assumes "distinct (map fst st)"
  shows "store_save k v st =
           (if length (AList.update k v st) > 500 then tl (AList.update k v st)
            else AList.update k v st)"
proof (cases "AList.update k v st")
  case Nil
  then show ?thesis by (simp add: store_save_def)
next
  case (Cons e al)
  obtain k0 v0 where e: "e = (k0, v0)" by (cases e) auto
  from assms have "distinct (map fst (AList.update k v st))" by (rule distinct_update)
  then have "AList.delete k0 ((k0, v0) # al) = al"
    unfolding Cons e by (rule store_delete_head)
  then show ?thesis by (simp add: store_save_def Cons e)
qed

lemma store_update_length:
  "length (AList.update k v al) = (if k \<in> set (map fst al) then length al else Suc (length al))"
  by (induction al) auto

lemma store_save_keys:
  assumes "distinct (map fst st)"
  shows "map fst (store_save k v st) =
           (let ks = (if k \<in> set (map fst st) then map fst st else map fst st @ [k])
            in if length ks > 500 then tl ks else ks)"
proof -
  have "length (AList.update k v st) = length (map fst (AList.update k v st))" by simp
  also have "\<dots> = length (if k \<in> set (map fst st) then map fst st else map fst st @ [k])"
    by (simp only: store_update_keys)
  finally have l: "length (AList.update k v st) =
      length (if k \<in> set (map fst st) then map fst st else map fst st @ [k])" .
  show ?thesis
    unfolding store_save_cases [OF assms] Let_def l [symmetric]
    by (simp add: map_tl store_update_keys)
qed

lemma store_of_keys: "map fst (store_of n) = [0..<n]"
  by (simp add: store_of_def comp_def)

lemma store_of_distinct: "distinct (map fst (store_of n))"
  by (simp add: store_of_keys)

lemma store_touch_keys: "map fst (store_save 0 7 (store_of 500)) = [0..<500]"
  by (simp add: store_save_keys [OF store_of_distinct] store_of_keys)

lemma store_touch_distinct: "distinct (map fst (store_save 0 7 (store_of 500)))"
  by (simp only: store_touch_keys distinct_upt)

lemma store_overflow_keys:
  "map fst (store_save 500 0 (store_save 0 7 (store_of 500))) = tl ([0..<500] @ [500])"
  by (simp add: store_save_keys [OF store_touch_distinct] store_touch_keys Let_def)

lemma map_of_const: "i \<in> set xs \<Longrightarrow> map_of (map (\<lambda>i. (i, c)) xs) i = Some c"
  by (induction xs) auto

text \<open>
  Claim C9, as stated, fails: the entry removed is not the least recently touched one. In
  a store filled with the keys 0 to 499 in this order, key 0 is saved again (it now holds
  7, and keeps its place at the front); the save of the new key 500 then removes key 0,
  the entry touched last before it, and keeps key 2, which was never touched again. Nor
  does every save leave at most 500 entries: a store of 502 entries has 501 after a save.
\<close>

theorem store_save_counterexample:
  "map_of (store_save 0 7 (store_of 500)) 0 = Some 7 \<and>
   map_of (store_save 0 7 (store_of 500)) 2 = Some 0 \<and>
   0 \<notin> set (map fst (store_save 500 0 (store_save 0 7 (store_of 500)))) \<and>
   2 \<in> set (map fst (store_save 500 0 (store_save 0 7 (store_of 500)))) \<and>
   length (store_of 502) = 502 \<and> distinct (map fst (store_of 502)) \<and>
   \<not> length (store_save 0 7 (store_of 502)) \<le> 500"
proof -
  have u: "AList.update 0 7 (store_of 500) = (0, 7) # map (\<lambda>i. (i, 0)) [Suc 0..<500]"
    by (simp add: store_of_def upt_conv_Cons [of 0 500])
  have t: "store_save 0 7 (store_of 500) = (0, 7) # map (\<lambda>i. (i, 0)) [Suc 0..<500]"
    unfolding store_save_cases [OF store_of_distinct] u by simp
  have a: "map_of (store_save 0 7 (store_of 500)) 0 = Some 7" unfolding t by simp
  have "map_of (map (\<lambda>i. (i, 0 :: nat)) [Suc 0..<500]) (2 :: nat) = Some 0"
    by (rule map_of_const) simp
  then have b: "map_of (store_save 0 7 (store_of 500)) 2 = Some 0" unfolding t by simp
  have k: "tl ([0..<500] @ [500 :: nat]) = [Suc 0..<500] @ [500]"
    by (simp add: upt_conv_Cons [of 0 500])
  have c: "0 \<notin> set (map fst (store_save 500 0 (store_save 0 7 (store_of 500))))"
    and d: "2 \<in> set (map fst (store_save 500 0 (store_save 0 7 (store_of 500))))"
    unfolding store_overflow_keys k by simp_all
  have "0 \<in> set (map fst (store_of 502))" by (simp only: store_of_keys) simp
  then have "length (AList.update 0 7 (store_of 502)) = 502"
    by (simp add: store_update_length) (simp add: store_of_def)
  then have l: "length (store_save 0 7 (store_of 502)) = 501"
    unfolding store_save_cases [OF store_of_distinct] by simp
  have e: "length (store_of 502) = 502" by (simp add: store_of_def)
  from a b c d e l store_of_distinct [of 502] show ?thesis by simp
qed

text \<open>
  Claim C9, amended. On a store with distinct keys (a dictionary), a save assigns the key
  and, when the store then holds more than 500 entries, removes exactly one entry: the
  first in the order of insertion, so that the save returns the tail of the updated store
  and the removed key is gone. Otherwise the save is the assignment alone. A store of at
  most 500 entries holds at most 500 entries after the save, and the keys stay distinct.
  The three savers \<open>_save_state\<close>, \<open>_save_ttt_state\<close> and \<open>_save_checkers_state\<close> all
  store through this one step, under the id of the session or a fresh one.
\<close>

theorem store_save_evicts_first_inserted:
  assumes "distinct (map fst st)"
  shows "(length (AList.update k v st) > 500 \<longrightarrow>
            store_save k v st = tl (AList.update k v st) \<and>
            length (store_save k v st) = length (AList.update k v st) - 1 \<and>
            fst (hd (AList.update k v st)) \<notin> fst ` set (store_save k v st)) \<and>
         (\<not> length (AList.update k v st) > 500 \<longrightarrow> store_save k v st = AList.update k v st) \<and>
         (length st \<le> 500 \<longrightarrow> length (store_save k v st) \<le> 500) \<and>
         distinct (map fst (store_save k v st)) \<and>
         snd (save_state fresh v (s, st0)) = store_save (if py_falsy (game_id s) then fresh else the (game_id s)) v st0 \<and>
         snd (save_ttt_state fresh v (s, st0)) = store_save (if py_falsy (ttt_id s) then fresh else the (ttt_id s)) v st0 \<and>
         snd (save_checkers_state fresh v (s, st0)) =
           store_save (if py_falsy (checkers_id s) then fresh else the (checkers_id s)) v st0"
proof -
  let ?u = "AList.update k v st"
  have d: "distinct (map fst ?u)" using assms by (rule distinct_update)
  have c: "store_save k v st = (if length ?u > 500 then tl ?u else ?u)"
    using assms by (rule store_save_cases)
  have big: "fst (hd ?u) \<notin> fst ` set (tl ?u)" if "length ?u > 500"
  proof -
    from that obtain e al where u: "?u = e # al" by (cases ?u) auto
    from d show ?thesis unfolding u by (auto simp: image_iff)
  qed
  have dt: "distinct (map fst (tl ?u))" using d by (simp add: distinct_tl map_tl)
  have small: "length st \<le> 500 \<Longrightarrow> length (store_save k v st) \<le> 500"
    unfolding c by (auto simp: store_update_length)
  show ?thesis
    using c big d dt small
    by (auto simp: save_state_def save_ttt_state_def save_checkers_state_def)
qed

theorem store_save_evicts_first_inserted_witness:
  "distinct (map fst (store_save 0 7 (store_of 500))) \<and>
   length (AList.update 500 0 (store_save 0 7 (store_of 500))) > 500 \<and>
   store_save 500 0 (store_save 0 7 (store_of 500)) =
     tl (AList.update 500 0 (store_save 0 7 (store_of 500))) \<and>
   length (store_save 500 0 (store_save 0 7 (store_of 500))) = 500 \<and>
   \<not> length (AList.update 0 7 (store_of 500)) > 500 \<and>
   store_save 0 7 (store_of 500) = AList.update 0 7 (store_of 500)"
proof -
  have "0 \<in> set (map fst (store_of 500))" by (simp only: store_of_keys) simp
  then have l0: "length (AList.update 0 7 (store_of 500)) = 500"
    by (simp add: store_update_length) (simp add: store_of_def)
  have "length (store_save 0 7 (store_of 500)) = length (map fst (store_save 0 7 (store_of 500)))"
    by simp
  also have "\<dots> = 500" by (simp only: store_touch_keys) simp
  finally have l1: "length (store_save 0 7 (store_of 500)) = 500" .
  have "500 \<notin> set (map fst (store_save 0 7 (store_of 500)))"
    by (simp only: store_touch_keys) simp
  then have l2: "length (AList.update 500 0 (store_save 0 7 (store_of 500))) = 501"
    by (simp add: store_update_length l1)
  from store_save_evicts_first_inserted [OF store_touch_distinct, of 500 0]
    store_save_evicts_first_inserted [OF store_of_distinct, of 0 7 500]
    l0 l1 l2 store_touch_distinct
  show ?thesis by simp
qed

section \<open>Properties of the room codes\<close>

lemma room_code_loop_fresh:
  "room_code_loop rnd in_use k n = Some code \<Longrightarrow> \<not> in_use code \<and> length code = 6"
  by (induction k arbitrary: n) (auto simp: Let_def draw_code_def split: if_splits)

lemma room_code_loop_exhausted:
  "(\<And>m. in_use (draw_code rnd m)) \<Longrightarrow> room_code_loop rnd in_use k n = None"
  by (induction k arbitrary: n) (auto simp: Let_def)

lemma new_room_code_loop_path:
  assumes "room_code_loop rnd (code_in_use R C T) 200 0 = Some code"
  shows "new_room_code rnd uuid_hex R C T = code \<and> \<not> code_in_use R C T code \<and> length code = 6"
  using assms room_code_loop_fresh [OF assms] by (simp add: new_room_code_def)

lemma draw_code_zero: "draw_code (\<lambda>k. 0) m = ''AAAAAA''"
  by (simp add: draw_code_def room_alphabet_def upt_rec)

text \<open>
  Claim C6 does not hold of the code on the fallback path. When every one of the 200 draws
  gives \<open>AAAAAA\<close>, a code held by \<open>ROOM_STORE\<close>, the function returns the first six
  characters of the uuid in upper case with no test against the stores: with a uuid that
  starts \<open>abcdef\<close> it returns \<open>ABCDEF\<close>, a code held by \<open>TTT_ROOM_STORE\<close>.
\<close>

theorem new_room_code_fallback_collision:
  "new_room_code (\<lambda>k. 0) uuid_example [(''AAAAAA'', ())] ([] :: (string \<times> unit) list)
     [(''ABCDEF'', ())] = ''ABCDEF'' \<and>
   code_in_use [(''AAAAAA'', ())] ([] :: (string \<times> unit) list) [(''ABCDEF'', ())] ''ABCDEF''"
proof -
  have "room_code_loop (\<lambda>k. 0)
          (code_in_use [(''AAAAAA'', ())] ([] :: (string \<times> unit) list) [(''ABCDEF'', ())]) 200 0 = None"
    by (rule room_code_loop_exhausted) (simp add: draw_code_zero code_in_use_def)
  moreover have "map py_upper (take 6 uuid_example) = ''ABCDEF''"
    by code_simp
  ultimately show ?thesis by (simp add: new_room_code_def code_in_use_def)
qed

section \<open>Properties of the turn gate\<close>

text \<open>
  Claim C7. A click on the checkers board from a session that holds a game and is bound
  to a room, when the gate denies it (the green player has not joined, or the role of the
  session is neither blue nor green, or it is not the role whose turn it is): the handler
  returns, and the game store, the room store and the state of the session are what they
  were.
\<close>

theorem checkers_click_denied:
  assumes st: "get_checkers_state (sess w) (GAME_STORE w) = Some state"
    and rm: "get_checkers_room (sess w) (CHECKERS_ROOM_STORE w) = (s, Some room)"
    and deny: "\<not> green_joined room \<or> (ck_room_role s \<noteq> Some ''b'' \<and> ck_room_role s \<noteq> Some ''g'') \<or>
               ck_room_role s \<noteq> Some (ck_turn state)"
  shows "\<not> checkers_room_can_play state (Some room) s \<and>
         (\<exists>w'. checkers_click fresh w idx = Some w' \<and> GAME_STORE w' = GAME_STORE w \<and>
               CHECKERS_ROOM_STORE w' = CHECKERS_ROOM_STORE w \<and>
               get_checkers_state (sess w') (GAME_STORE w') = Some state)"
proof -
  from deny have d: "\<not> checkers_room_can_play state (Some room) s"
    by (auto simp: checkers_room_can_play_def checkers_room_ready_def)
  from rm have "checkers_id s = checkers_id (sess w)"
    by (auto simp: get_checkers_room_def split: if_splits option.splits)
  with st have "get_checkers_state s (GAME_STORE w) = Some state"
    by (auto simp: get_checkers_state_def split: if_splits)
  with d st rm show ?thesis by (simp add: checkers_click_def)
qed

theorem checkers_click_denied_witness:
  "get_checkers_state (sess ck_room_example) (GAME_STORE ck_room_example)
     = Some (new_checkers_state ''Azul'' ''Verde'') \<and>
   ck_room_role (sess ck_room_example) \<noteq> Some (ck_turn (new_checkers_state ''Azul'' ''Verde'')) \<and>
   (\<exists>w'. checkers_click ''feed'' ck_room_example 40 = Some w' \<and>
         GAME_STORE w' = GAME_STORE ck_room_example) \<and>
   (\<exists>w'. checkers_click ''feed''
           (ck_room_example\<lparr> sess := (sess ck_room_example)\<lparr> ck_room_role := Some ''b'' \<rparr> \<rparr>) 40 = Some w' \<and>
         map_option ck_selected (get_checkers_state (sess w') (GAME_STORE w')) = Some (Some 40))"
proof -
  have st: "get_checkers_state (sess ck_room_example) (GAME_STORE ck_room_example)
              = Some (new_checkers_state ''Azul'' ''Verde'')"
    by (simp add: ck_room_example_def get_checkers_state_def py_falsy_def)
  have rm: "get_checkers_room (sess ck_room_example) (CHECKERS_ROOM_STORE ck_room_example)
              = (sess ck_room_example, Some \<lparr> room_checkers_id = Some ''c0ffee'', green_joined = True \<rparr>)"
    by (simp add: ck_room_example_def get_checkers_room_def py_falsy_def)
  have role: "ck_room_role (sess ck_room_example) \<noteq> Some (ck_turn (new_checkers_state ''Azul'' ''Verde''))"
    by (simp add: ck_room_example_def new_checkers_state_def)
  have ok: "map_option (\<lambda>w'. map_option ck_selected (get_checkers_state (sess w') (GAME_STORE w')))
              (checkers_click ''feed''
                 (ck_room_example\<lparr> sess := (sess ck_room_example)\<lparr> ck_room_role := Some ''b'' \<rparr> \<rparr>) 40)
            = Some (Some (Some 40))"
    by code_simp
  from checkers_click_denied [OF st rm, of "''feed''" 40] role
  have "\<exists>w'. checkers_click ''feed'' ck_room_example 40 = Some w' \<and>
         GAME_STORE w' = GAME_STORE ck_room_example" by blast
  with st role ok show ?thesis by auto
qed

section \<open>Properties of the scores\<close>

lemma ttt_scores_le_refl: "ttt_scores_le s s"
  by (simp add: ttt_scores_le_def)

lemma ttt_scores_le_trans: "ttt_scores_le a b \<Longrightarrow> ttt_scores_le b c \<Longrightarrow> ttt_scores_le a c"
  by (auto simp: ttt_scores_le_def)

lemma ttt_finalize_scores:
  assumes "ttt_finalize s = Some s'"
  shows "ttt_scores_le s s'"
proof -
  from assms obtain winner where "ttt_check_winner (ttt_board s) = Some winner"
    by (auto simp: ttt_finalize_def bind_eq_Some_conv)
  with assms show ?thesis
    by (cases winner) (auto simp: ttt_finalize_def ttt_scores_le_def Let_def split: if_splits)
qed

lemma ttt_do_move_scores:
  assumes "ttt_do_move s pos = Some s'"
  shows "ttt_scores_le s s'"
proof (cases "ttt_finished s \<or> pos < 0 \<or> 9 \<le> pos")
  case True
  with assms show ?thesis
    by (auto simp: ttt_do_move_def ttt_scores_le_refl split: if_splits)
next
  case False
  with assms obtain cell where cell: "py_get (ttt_board s) pos = Some cell"
    by (auto simp: ttt_do_move_def bind_eq_Some_conv)
  show ?thesis
  proof (cases "cell = []")
    case ne: False
    with assms False cell show ?thesis by (simp add: ttt_do_move_def ttt_scores_le_refl)
  next
    case True
    with assms False cell obtain board s1
      where s1: "ttt_finalize (s\<lparr> ttt_board := board \<rparr>) = Some s1"
        and r: "(if ttt_finished s1 then Some s1
                 else ttt_finalize (s1\<lparr> ttt_current := (if ttt_current s1 = ''X'' then ''O'' else ''X'') \<rparr>))
                = Some s'"
      by (auto simp: ttt_do_move_def bind_eq_Some_conv)
    from ttt_finalize_scores [OF s1] have a: "ttt_scores_le s s1"
      by (simp add: ttt_scores_le_def)
    show ?thesis
    proof (cases "ttt_finished s1")
      case True
      with r a show ?thesis by simp
    next
      case nf: False
      with r have "ttt_finalize (s1\<lparr> ttt_current := (if ttt_current s1 = ''X'' then ''O'' else ''X'') \<rparr>)
                     = Some s'" by simp
      from ttt_finalize_scores [OF this] have "ttt_scores_le s1 s'"
        by (simp add: ttt_scores_le_def)
      with a show ?thesis by (rule ttt_scores_le_trans)
    qed
  qed
qed

lemma ttt_bot_turn_scores:
  assumes "ttt_bot_turn rnd s = Some s'"
  shows "ttt_scores_le s s'"
  using assms
  by (auto simp: ttt_bot_turn_def Let_def ttt_scores_le_refl split: if_splits
      intro: ttt_do_move_scores)

lemma tictactoe_move_state_scores:
  assumes "tictactoe_move_state rnd has_room s pos = Some s'"
  shows "ttt_scores_le s s'"
proof -
  from assms obtain s1 where a: "ttt_do_move s pos = Some s1"
    and b: "(if \<not> has_room then ttt_bot_turn rnd s1 else Some s1) = Some s'"
    by (auto simp: tictactoe_move_state_def bind_eq_Some_conv)
  from b have "ttt_scores_le s1 s'"
    by (auto simp: ttt_scores_le_refl split: if_splits intro: ttt_bot_turn_scores)
  with ttt_do_move_scores [OF a] show ?thesis by (rule ttt_scores_le_trans)
qed

lemma ttt_do_move_total:
  assumes "length (ttt_board s) = 9"
  shows "\<exists>s'. ttt_do_move s pos = Some s' \<and> length (ttt_board s') = 9"
proof (cases "ttt_finished s \<or> pos < 0 \<or> 9 \<le> pos \<or> ttt_board s ! nat pos \<noteq> []")
  case True
  from ttt_do_move_noop [OF assms True] assms show ?thesis by simp
next
  case False
  from ttt_do_move_placed [OF assms False] assms show ?thesis by auto
qed

lemma ttt_bot_turn_total:
  assumes "length (ttt_board s) = 9"
  shows "\<exists>s'. ttt_bot_turn rnd s = Some s'"
  using ttt_do_move_total [OF assms] by (auto simp: ttt_bot_turn_def Let_def)

lemma tictactoe_move_state_total:
  assumes "length (ttt_board s) = 9"
  shows "\<exists>s'. tictactoe_move_state rnd has_room s pos = Some s'"
proof -
  from ttt_do_move_total [OF assms] obtain s1
    where s1: "ttt_do_move s pos = Some s1" "length (ttt_board s1) = 9" by blast
  from ttt_bot_turn_total [OF s1(2)] s1(1) show ?thesis
    by (auto simp: tictactoe_move_state_def)
qed

lemma ck_scores_le_refl: "ck_scores_le s s"
  by (simp add: ck_scores_le_def)

lemma ck_finalize_scores: "ck_finalize_turn_if_needed s = Some s' \<Longrightarrow> ck_scores_le s s'"
  using ck_finalize_props [of s s'] by (simp add: ck_scores_le_def)

lemma ck_apply_move_scores:
  assumes "ck_apply_move s f t cap = Some s'"
  shows "ck_scores_le s s'"
proof -
  from assms obtain board promoted
    where r: "(if cap \<and> \<not> promoted then
                 do {
                   next_caps \<leftarrow> ck_captures board t;
                   if next_caps \<noteq> [] then
                     Some (s\<lparr> ck_board := board, ck_forced_from := Some t, ck_selected := Some t,
                              ck_message := captura_obrigatoria \<rparr>)
                   else ck_finalize_turn_if_needed (s\<lparr> ck_board := board \<rparr>)
                 }
               else ck_finalize_turn_if_needed (s\<lparr> ck_board := board \<rparr>)) = Some s'"
    by (auto simp: ck_apply_move_def bind_eq_Some_conv Let_def)
  then consider "s' = s\<lparr> ck_board := board, ck_forced_from := Some t, ck_selected := Some t,
                          ck_message := captura_obrigatoria \<rparr>"
    | "ck_finalize_turn_if_needed (s\<lparr> ck_board := board \<rparr>) = Some s'"
    by (auto simp: bind_eq_Some_conv split: if_splits)
  then show ?thesis
  proof cases
    case 1
    then show ?thesis by (simp add: ck_scores_le_def)
  next
    case 2
    from ck_finalize_scores [OF 2] show ?thesis by (simp add: ck_scores_le_def)
  qed
qed

lemma ck_click_cell_scores:
  assumes "ck_click_cell s idx = Some s'"
  shows "ck_scores_le s s'"
proof (cases "ck_finished s \<or> idx < 0 \<or> 64 \<le> idx")
  case True
  with assms show ?thesis by (auto simp: ck_click_cell_def ck_scores_le_refl)
next
  case False
  with assms obtain legal where "ck_legal_moves s = Some legal"
    and r: "(case ck_selected s of
           None \<Rightarrow>
             Some (if map_of legal idx \<noteq> None then s\<lparr> ck_selected := Some idx \<rparr> else s)
         | Some selected \<Rightarrow>
             let targets = map_of (rev (case map_of legal selected of None \<Rightarrow> [] | Some ms \<Rightarrow> ms)) in
             (case targets idx of
                Some cap \<Rightarrow> ck_apply_move s selected idx cap
              | None \<Rightarrow>
                  Some (if map_of legal idx \<noteq> None then s\<lparr> ck_selected := Some idx \<rparr>
                        else s\<lparr> ck_selected := None \<rparr>))) = Some s'"
    by (auto simp: ck_click_cell_def bind_eq_Some_conv)
  from r show ?thesis
    by (auto simp: ck_scores_le_def Let_def split: option.splits if_splits
        dest: ck_apply_move_scores)
qed

lemma ck_legal_moves_keys:
  assumes "ck_wf s" and "ck_legal_moves s = Some lm" and "(k, ms) \<in> set lm"
  shows "0 \<le> k \<and> k < 64"
proof -
  from assms(2) obtain cm
    where cm: "ck_collect (ck_captures (ck_board s)) (ck_piece_indexes s) [] = Some cm"
      and r: "(if cm \<noteq> [] then Some cm
               else if ck_forced_from s \<noteq> None then Some []
               else ck_collect (ck_steps (ck_board s)) (ck_piece_indexes s) []) = Some lm"
    by (auto simp: ck_legal_moves_def bind_eq_Some_conv)
  have "k \<in> set (ck_piece_indexes s)"
  proof (cases "cm \<noteq> []")
    case True
    with r have "lm = cm" by simp
    with ck_collect_entries [OF cm] assms(3) show ?thesis by auto
  next
    case False
    with r assms(3) have "ck_collect (ck_steps (ck_board s)) (ck_piece_indexes s) [] = Some lm"
      by (auto split: if_splits)
    from ck_collect_entries [OF this assms(3)] show ?thesis by auto
  qed
  with ck_piece_indexes_range [OF assms(1)] show ?thesis by blast
qed

lemma ck_apply_move_total:
  assumes len: "length (ck_board s) = 64" and f: "0 \<le> f" "f < 64" and t: "0 \<le> t" "t < 64"
  shows "\<exists>s'. ck_apply_move s f t cap = Some s'"
proof -
  let ?b = "ck_after_move (ck_board s) f t cap"
  have lb: "length ?b = 64" by (simp add: ck_after_move_length len)
  from ck_captures_total [OF lb, of t] t obtain nc where nc: "ck_captures ?b t = Some nc" by auto
  from ck_finalize_total [of "s\<lparr> ck_board := ?b \<rparr>"] lb obtain s1
    where s1: "ck_finalize_turn_if_needed (s\<lparr> ck_board := ?b \<rparr>) = Some s1" by auto
  from ck_apply_move_eval [OF len f t, of cap] nc s1 show ?thesis
    by (auto simp: Let_def)
qed

lemma ck_click_cell_total:
  assumes wf: "ck_wf s"
  shows "\<exists>s'. ck_click_cell s idx = Some s'"
proof (cases "ck_finished s \<or> idx < 0 \<or> 64 \<le> idx")
  case True
  then show ?thesis by (auto simp: ck_click_cell_def)
next
  case False
  from ck_legal_moves_total [OF wf] obtain legal where legal: "ck_legal_moves s = Some legal"
    by blast
  from wf have len: "length (ck_board s) = 64" by (simp add: ck_wf_def)
  show ?thesis
  proof (cases "ck_selected s")
    case None
    with False legal show ?thesis by (simp add: ck_click_cell_def)
  next
    case (Some sel)
    show ?thesis
    proof (cases "map_of legal sel")
      case n: None
      with False legal Some show ?thesis by (simp add: ck_click_cell_def)
    next
      case (Some ms)
      then have "(sel, ms) \<in> set legal" by (rule map_of_SomeD)
      from ck_legal_moves_keys [OF wf legal this] have sel: "0 \<le> sel" "sel < 64" by simp_all
      from False have idx: "0 \<le> idx" "idx < 64" by simp_all
      from ck_apply_move_total [OF len sel idx] False legal \<open>ck_selected s = Some sel\<close> Some
      show ?thesis
        by (auto simp: ck_click_cell_def split: option.splits)
    qed
  qed
qed

text \<open>
  Claim C10. A move of tic-tac-toe (\<open>_ttt_do_move\<close> alone, or the handler with the turn
  of the bot) and a click on the checkers board never lower a score, and both return on a
  board of the right size. The next round resets board, turn, finished flag and winner
  and leaves every score as it was; dismissing the overlay and joining a room leave every
  score as it was too.
\<close>

theorem scores_never_decrease:
  "(ttt_do_move s pos = Some s' \<longrightarrow> ttt_scores_le s s') \<and>
   (tictactoe_move_state rnd has_room s pos = Some s' \<longrightarrow> ttt_scores_le s s') \<and>
   (length (ttt_board s) = 9 \<longrightarrow> (\<exists>s'. tictactoe_move_state rnd has_room s pos = Some s')) \<and>
   ttt_scores_eq s (tictactoe_next_state s) \<and>
   ttt_board (tictactoe_next_state s) = replicate 9 [] \<and>
   ttt_current (tictactoe_next_state s) = ''X'' \<and>
   \<not> ttt_finished (tictactoe_next_state s) \<and> ttt_winner (tictactoe_next_state s) = None \<and>
   ttt_scores_eq s (tictactoe_overlay_dismiss_state s) \<and>
   ttt_scores_eq s (tictactoe_room_join_state p2_name s) \<and>
   (ck_click_cell c idx = Some c' \<longrightarrow> ck_scores_le c c') \<and>
   (ck_wf c \<longrightarrow> (\<exists>c'. ck_click_cell c idx = Some c')) \<and>
   ck_scores_eq c (checkers_next_state c) \<and>
   ck_board (checkers_next_state c) = new_checkers_board \<and>
   ck_turn (checkers_next_state c) = ''b'' \<and> ck_forced_from (checkers_next_state c) = None \<and>
   \<not> ck_finished (checkers_next_state c) \<and> ck_winner (checkers_next_state c) = None \<and>
   ck_scores_eq c (checkers_overlay_dismiss_state c) \<and>
   ck_scores_eq c (checkers_room_join_state green_name c)"
  using ttt_do_move_scores [of s pos s'] tictactoe_move_state_scores [of rnd has_room s pos s']
    tictactoe_move_state_total [of s rnd has_room pos]
    ck_click_cell_scores [of c idx c'] ck_click_cell_total [of c idx]
  by (simp add: ttt_scores_eq_def ck_scores_eq_def tictactoe_next_state_def
      tictactoe_overlay_dismiss_state_def tictactoe_room_join_state_def checkers_next_state_def
      checkers_overlay_dismiss_state_def checkers_room_join_state_def Let_def)

theorem scores_never_decrease_witness:
  "length (ttt_board ttt_two_in_row) = 9 \<and> ttt_score_x ttt_two_in_row = 0 \<and>
   (\<exists>s'. ttt_do_move ttt_two_in_row 2 = Some s' \<and> ttt_scores_le ttt_two_in_row s' \<and>
         ttt_score_x s' = 1) \<and>
   (\<exists>s'. tictactoe_move_state 0 True ttt_two_in_row 2 = Some s' \<and>
         ttt_scores_le ttt_two_in_row s') \<and>
   ttt_scores_eq ttt_double_win (tictactoe_next_state ttt_double_win) \<and>
   ttt_score_x (tictactoe_next_state ttt_double_win) = 1 \<and>
   ck_wf ck_ex_last_capture \<and> ck_score_blue ck_ex_last_capture = 0 \<and>
   (\<exists>c'. ck_click_cell ck_ex_last_capture 3 = Some c' \<and> ck_scores_le ck_ex_last_capture c' \<and>
         ck_score_blue c' = 1) \<and>
   ck_scores_eq ck_ex_last_capture (checkers_next_state ck_ex_last_capture)"
proof -
  have l: "length (ttt_board ttt_two_in_row) = 9" by (simp add: ttt_two_in_row_def)
  have z: "ttt_score_x ttt_two_in_row = 0" by (simp add: ttt_two_in_row_def)
  have "map_option ttt_score_x (ttt_do_move ttt_two_in_row 2) = Some 1" by code_simp
  then obtain s1 where s1: "ttt_do_move ttt_two_in_row 2 = Some s1" "ttt_score_x s1 = 1"
    by auto
  have "map_option ttt_score_x (tictactoe_move_state 0 True ttt_two_in_row 2) = Some 1"
    by code_simp
  then obtain s2 where s2: "tictactoe_move_state 0 True ttt_two_in_row 2 = Some s2" by auto
  have n: "ttt_score_x (tictactoe_next_state ttt_double_win) = 1"
    by (simp add: tictactoe_next_state_def ttt_double_win_def)
  have wf: "ck_wf ck_ex_last_capture"
    by (simp add: ck_wf_def ck_ex_last_capture_def ck_example_def ck_place_def)
  have zb: "ck_score_blue ck_ex_last_capture = 0"
    by (simp add: ck_ex_last_capture_def ck_example_def new_checkers_state_def)
  have "map_option ck_score_blue (ck_click_cell ck_ex_last_capture 3) = Some 1" by code_simp
  then obtain c1 where c1: "ck_click_cell ck_ex_last_capture 3 = Some c1" "ck_score_blue c1 = 1"
    by auto
  from scores_never_decrease [where s = ttt_two_in_row and pos = 2 and s' = s1]
    s1 have a: "ttt_scores_le ttt_two_in_row s1" by simp
  from scores_never_decrease [where s = ttt_two_in_row and pos = 2 and s' = s2 and rnd = 0
      and has_room = True] s2
  have b: "ttt_scores_le ttt_two_in_row s2" by simp
  from scores_never_decrease [where s = ttt_double_win]
  have c: "ttt_scores_eq ttt_double_win (tictactoe_next_state ttt_double_win)" by simp
  from scores_never_decrease [where c = ck_ex_last_capture and idx = 3 and c' = c1] c1
  have d: "ck_scores_le ck_ex_last_capture c1"
    and e: "ck_scores_eq ck_ex_last_capture (checkers_next_state ck_ex_last_capture)"
    by simp_all
  from l z s1 s2 a b c n wf zb c1 d e show ?thesis by simp
qed

end
